theory Spec2Isabelle
  imports Main "HOL-Library.Multiset"
begin

section \<open>Strings, arrays and numbers of the host language\<close>

text \<open>
  A string of the client is a sequence of UTF-16 code units. A \<^typ>\<open>char\<close> stands for a
  code unit below 256; code units above that are outside this model (none of them is
  matched by a pattern of the encoder; \<open>trim\<close> would also strip the white space among them).
\<close>

definition backslash :: char where
  "backslash = CHR 0x5C"

definition dquote :: char where
  "dquote = CHR 0x22"

text \<open>
  \<^verbatim>\<open>s.replace(/[...]/g, r)\<close> with a pattern that matches one code unit of a class:
  every code unit of the class is replaced, from left to right, by a replacement that
  may mention the match (\<^verbatim>\<open>$1\<close>); the others are kept.
\<close>

definition replace_all :: "(char \<Rightarrow> bool) \<Rightarrow> (char \<Rightarrow> string) \<Rightarrow> string \<Rightarrow> string" where
  "replace_all cls repl s = concat (map (\<lambda>c. if cls c then repl c else [c]) s)"

text \<open>\<^verbatim>\<open>Array.prototype.join\<close> on an array of strings.\<close>

fun join :: "'a list \<Rightarrow> 'a list list \<Rightarrow> 'a list" where
  "join sep [] = []"
| "join sep [x] = x"
| "join sep (x # y # ys) = x @ sep @ join sep (y # ys)"

text \<open>
  \<^verbatim>\<open>String.prototype.trim\<close> strips white space and line terminators from both ends.
  Below 256 these are TAB, LF, VT, FF, CR, SP and NBSP.
\<close>

definition isWhiteSpace :: "char \<Rightarrow> bool" where
  "isWhiteSpace c \<longleftrightarrow>
     c = CHR 0x09 \<or> c = CHR 0x0A \<or> c = CHR 0x0B \<or> c = CHR 0x0C \<or> c = CHR 0x0D
     \<or> c = CHR 0x20 \<or> c = CHR 0xA0"

definition trim :: "string \<Rightarrow> string" where
  "trim s = rev (dropWhile isWhiteSpace (rev (dropWhile isWhiteSpace s)))"

text \<open>
  Numbers. A number of the client is a double. The numbers of this model are the
  integer-valued ones: an \<^typ>\<open>int\<close> \<open>i\<close> stands for the number that the host makes of
  the integer \<open>i\<close>, which is the double nearest to \<open>i\<close> (\<open>round_double\<close>, on the
  magnitude: 53 significant bits, a tie goes to the even significand), or an infinity
  from \<open>2\<^sup>1\<^sup>0\<^sup>2\<^sup>4\<close> on. The product of two such numbers is the double nearest to the
  exact product. Numbers with a fraction are outside this model; \<open>NaN\<close> occurs only as
  the time of an invalid date and is dealt with there.
\<close>

fun bits :: "nat \<Rightarrow> nat" where
  "bits a = (if a = 0 then 0 else Suc (bits (a div 2)))"

declare bits.simps [simp del]

definition round_double :: "nat \<Rightarrow> nat" where
  "round_double a =
     (let e = bits a - 53
      in if e = 0 then a
         else let q = a div 2 ^ e; r = a mod 2 ^ e; h = 2 ^ (e - 1)
              in (if r < h \<or> (r = h \<and> even q) then q else q + 1) * 2 ^ e)"

text \<open>
  The conversion of a number to a string (\<^verbatim>\<open>Number.prototype.toString\<close>, also behind
  a template literal). For a double \<open>v\<close> the host takes the digits \<open>s\<close>, as few as
  possible, and the exponent such that \<open>s\<close> times the power of ten is a decimal that
  the host reads back as \<open>v\<close>; among several with as few digits, the one nearest to \<open>v\<close>,
  in a tie the even one. For an integer \<open>v\<close> of \<open>n\<close> digits these decimals are multiples
  of \<open>10\<^sup>m\<close> with \<open>m < n\<close>, and for each \<open>m\<close> only the two multiples around \<open>v\<close> can
  be read back as \<open>v\<close> (\<open>candidate\<close>); the search goes from the fewest digits on
  (\<open>shortest_at\<close>) and ends at \<open>m = 0\<close> with \<open>v\<close> itself. \<open>shortest v\<close> is the decimal
  found. Below \<open>10\<^sup>2\<^sup>1\<close> it is printed in full, from there on in exponent form: the
  first digit, a point and the other digits when there are more, \<open>e+\<close> and the exponent.
\<close>

definition digit :: "nat \<Rightarrow> char" where
  "digit d = ''0123456789'' ! d"

fun nat_toString :: "nat \<Rightarrow> string" where
  "nat_toString n =
     (if n < 10 then [digit n] else nat_toString (n div 10) @ [digit (n mod 10)])"

declare nat_toString.simps [simp del]

fun ndigits :: "nat \<Rightarrow> nat" where
  "ndigits a = (if a = 0 then 0 else Suc (ndigits (a div 10)))"

declare ndigits.simps [simp del]

definition candidate :: "nat \<Rightarrow> nat \<Rightarrow> nat option" where
  "candidate v P =
     (let lo = (v div P) * P; hi = lo + P;
          ok_lo = (round_double lo = v); ok_hi = (round_double hi = v)
      in if ok_lo \<and> ok_hi
         then Some (if v - lo < hi - v then lo
                    else if hi - v < v - lo then hi
                    else if even (v div P) then lo else hi)
         else if ok_lo then Some lo
         else if ok_hi then Some hi
         else None)"

fun shortest_at :: "nat \<Rightarrow> nat \<Rightarrow> nat" where
  "shortest_at v 0 = v"
| "shortest_at v (Suc m) =
     (case candidate v (10 ^ Suc m) of Some y \<Rightarrow> y | None \<Rightarrow> shortest_at v m)"

definition shortest :: "nat \<Rightarrow> nat" where
  "shortest v = shortest_at v (ndigits v - 1)"

fun strip_zeros :: "nat \<Rightarrow> nat" where
  "strip_zeros y = (if y = 0 \<or> y mod 10 \<noteq> 0 then y else strip_zeros (y div 10))"

declare strip_zeros.simps [simp del]

definition exponent_form :: "nat \<Rightarrow> string" where
  "exponent_form y =
     (case nat_toString (strip_zeros y) of
        [] \<Rightarrow> []
      | d # ds \<Rightarrow> d # (if ds = [] then [] else CHR ''.'' # ds))
     @ ''e+'' @ nat_toString (ndigits y - 1)"

definition number_toString :: "int \<Rightarrow> string" where
  "number_toString i =
     (let v = round_double (nat \<bar>i\<bar>);
          sign = (if i < 0 then ''-'' else [])
      in if v \<ge> 2 ^ 1024 then sign @ ''Infinity''
         else let y = shortest v
              in if y < 10 ^ 21 then sign @ nat_toString y else sign @ exponent_form y)"

text \<open>
  A \<^verbatim>\<open>Date\<close>. \<open>Instant ms\<close> is \<^verbatim>\<open>new Date(ms)\<close> for an integer \<open>ms\<close>: its time is \<open>ms\<close>
  when the magnitude is at most 8640000000000000, and the date is invalid beyond.
  \<^verbatim>\<open>getTime()\<close> of an invalid date is \<open>NaN\<close>, here \<open>None\<close>.
\<close>

datatype date = Invalid_Date | Instant int

definition getTime :: "date \<Rightarrow> int option" where
  "getTime d =
     (case d of
        Invalid_Date \<Rightarrow> None
      | Instant ms \<Rightarrow> if \<bar>ms\<bar> \<le> 8640000000000000 then Some ms else None)"


section \<open>The data point and its line protocol encoding\<close>

datatype field_value = FString string | FBoolean bool | FNumber int

text \<open>
  \<open>tags\<close> and \<open>fields_rec\<close> (the property \<^verbatim>\<open>fields\<close>, a name the record
  package claims) are the entries of the two objects in the order in which
  \<^verbatim>\<open>Object.entries\<close> enumerates them. \<open>timestamp\<close> is the \<^verbatim>\<open>Date\<close>, \<open>None\<close> when
  the property is absent. \<open>FNumber n\<close> is the number that the host makes of the
  integer \<open>n\<close>.
\<close>

record VMDataPoint =
  measurement :: string
  tags :: "(string \<times> string) list"
  fields_rec :: "(string \<times> field_value) list"
  timestamp :: "date option"

text \<open>
  What is thrown or rejected with: \<^verbatim>\<open>new Error(message)\<close>, or the \<^verbatim>\<open>RangeError\<close> of
  the engine for a call with more arguments than it accepts (its message depends on the
  engine).
\<close>

datatype error = Error string | RangeError

text \<open>
  The two local functions of \<^verbatim>\<open>formatLineProtocol\<close>:
  \<^verbatim>\<open>s.replace(/([,= ])/g, '\\$1')\<close> puts a backslash before each match;
  \<^verbatim>\<open>s.replace(/\\/g, '\\\\').replace(/"/g, '\\"')\<close> first doubles each backslash and then
  puts a backslash before each double quote.
\<close>

definition escapeTag :: "string \<Rightarrow> string" where
  "escapeTag s =
     replace_all (\<lambda>c. c = CHR '','' \<or> c = CHR ''='' \<or> c = CHR '' '') (\<lambda>c. [backslash, c]) s"

definition escapeStringField :: "string \<Rightarrow> string" where
  "escapeStringField s =
     replace_all (\<lambda>c. c = dquote) (\<lambda>c. [backslash, dquote])
       (replace_all (\<lambda>c. c = backslash) (\<lambda>c. [backslash, backslash]) s)"

text \<open>
  The constant \<^verbatim>\<open>measurement\<close>: \<^verbatim>\<open>point.measurement.replace(/([, ])/g, '\\$1')\<close>,
  a pattern of its own, without the equals sign.
\<close>

definition escapeMeasurement :: "string \<Rightarrow> string" where
  "escapeMeasurement s =
     replace_all (\<lambda>c. c = CHR '','' \<or> c = CHR '' '') (\<lambda>c. [backslash, c]) s"

text \<open>The constant \<^verbatim>\<open>tags\<close> of \<^verbatim>\<open>formatLineProtocol\<close>.\<close>

definition tags_line :: "VMDataPoint \<Rightarrow> string" where
  "tags_line p = join '','' (map (\<lambda>(k, v). escapeTag k @ ''='' @ escapeTag v) (tags p))"

text \<open>
  One entry of \<^verbatim>\<open>fields\<close>. The static type of a field value leaves the three cases
  below; the \<^verbatim>\<open>return null\<close> of the source is not reached.
\<close>

definition field_entry :: "string \<times> field_value \<Rightarrow> string" where
  "field_entry = (\<lambda>(k, v).
     let key = escapeTag k in
     case v of
       FString s \<Rightarrow> key @ ''='' @ [dquote] @ escapeStringField s @ [dquote]
     | FBoolean b \<Rightarrow> key @ ''='' @ (if b then ''t'' else ''f'')
     | FNumber n \<Rightarrow> key @ ''='' @ number_toString n)"

text \<open>The constant \<^verbatim>\<open>fields\<close>; \<^verbatim>\<open>filter(Boolean)\<close> drops the empty strings.\<close>

definition fields_line :: "VMDataPoint \<Rightarrow> string" where
  "fields_line p = join '','' (filter (\<lambda>s. s \<noteq> []) (map field_entry (fields_rec p)))"

text \<open>
  The constant \<^verbatim>\<open>timestamp\<close>,
  \<^verbatim>\<open>point.timestamp ? (point.timestamp.getTime() * 1_000_000).toString() : ''\<close>.
  A \<^verbatim>\<open>Date\<close> that is present is truthy, also an invalid one, whose time is \<open>NaN\<close>;
  the product with \<open>NaN\<close> is \<open>NaN\<close>, and its string is \<open>NaN\<close>.
\<close>

definition timestamp_line :: "VMDataPoint \<Rightarrow> string" where
  "timestamp_line p =
     (case timestamp p of
        None \<Rightarrow> []
      | Some d \<Rightarrow>
          (case getTime d of
             None \<Rightarrow> ''NaN''
           | Some t \<Rightarrow> number_toString (t * 1000000)))"

definition measurementAndTags :: "VMDataPoint \<Rightarrow> string" where
  "measurementAndTags p =
     (if length (tags_line p) > 0
      then escapeMeasurement (measurement p) @ '','' @ tags_line p
      else escapeMeasurement (measurement p))"

text \<open>The test for fields is on the joined string, as in the source; \<open>Inl\<close> is the throw.\<close>

definition formatLineProtocol :: "VMDataPoint \<Rightarrow> error + string" where
  "formatLineProtocol p =
     (if length (fields_line p) = 0
      then Inl (Error ''Data point must have at least one field'')
      else Inr (trim (measurementAndTags p @ '' '' @ fields_line p @ '' '' @ timestamp_line p)))"


section \<open>The transport\<close>

record request =
  req_url :: string
  req_method :: string
  req_headers :: "(string \<times> string) list"
  req_body :: string

text \<open>
  What \<^verbatim>\<open>fetch\<close> comes back with: it rejects (a fault of the network), or it resolves
  to a response, of which the client reads the status and the text of the body.
\<close>

datatype fetch_result = Rejected error | Response int string

text \<open>\<^verbatim>\<open>this.options\<close>: the options with the defaults filled in.\<close>

record Options =
  url :: string
  auth :: "string option"
  batchSize :: int
  flushInterval :: int

text \<open>The argument of the constructor; \<open>None\<close> is an option left out.\<close>

record VMClientOptions =
  opt_url :: string
  opt_auth :: "string option"
  opt_batchSize :: "int option"
  opt_flushInterval :: "int option"

text \<open>
  \<^verbatim>\<open>send\<close> up to its \<^verbatim>\<open>await fetch(...)\<close>: the request it issues. The test
  \<^verbatim>\<open>this.options.auth?.bearer\<close> holds for a bearer that is present and not the empty string.
\<close>

definition send_request :: "Options \<Rightarrow> string list \<Rightarrow> request" where
  "send_request opts points =
     (let body = join [CHR 0x0A] points;
          headers = [(''Content-Type'', ''text/plain'')];
          headers' = (case auth opts of
                        Some bearer \<Rightarrow>
                          if bearer \<noteq> [] then headers @ [(''Authorization'', ''Bearer '' @ bearer)]
                          else headers
                      | None \<Rightarrow> headers)
      in \<lparr>req_url = url opts @ ''/write'', req_method = ''POST'',
          req_headers = headers', req_body = body\<rparr>)"

text \<open>\<^verbatim>\<open>send\<close> from the point where \<^verbatim>\<open>fetch\<close> has settled: it returns or throws.\<close>

definition send_settle :: "fetch_result \<Rightarrow> error + unit" where
  "send_settle r =
     (case r of
        Rejected e \<Rightarrow> Inl e
      | Response status text \<Rightarrow>
          if status \<noteq> 204
          then Inl (Error (''[VMClient] Server responded with status '' @ number_toString status
                          @ '': '' @ text))
          else Inr ())"


section \<open>The client and its buffer\<close>

text \<open>Who called \<^verbatim>\<open>flush()\<close>: the interval, \<^verbatim>\<open>writePoint\<close>, the application, \<^verbatim>\<open>shutdown\<close>.\<close>

datatype caller = Timer | Threshold | Manual | Shutdown

text \<open>
  The messages of \<^verbatim>\<open>console.error\<close>: \<open>Failed to format data point\<close> of
  \<^verbatim>\<open>writePoint\<close>, \<open>Flush failed\<close> of the \<^verbatim>\<open>catch\<close> in \<^verbatim>\<open>flush\<close>, and \<open>Flush error\<close> of
  the \<^verbatim>\<open>.catch\<close> that the interval and \<^verbatim>\<open>writePoint\<close> put on the promise of \<^verbatim>\<open>flush()\<close>.
\<close>

datatype console_message = FormatFailed error | FlushFailed error | FlushError error

text \<open>
  The client runs on one thread: a piece of code runs without interruption until it returns
  or reaches an \<^verbatim>\<open>await\<close>. The state between two such pieces is
  \<^item> \<open>options\<close>, \<open>buffer\<close>: the fields of the class;
  \<^item> \<open>timerId\<close>: whether the interval set by the constructor is still set;
  \<^item> \<open>bufferMutex\<close>: the calls of \<^verbatim>\<open>flush()\<close> that wait to run their callback under
    \<^verbatim>\<open>runExclusive\<close>, the oldest first;
  \<^item> \<open>sending\<close>: the call that holds the mutex, suspended at \<^verbatim>\<open>await this.send(dataToSend)\<close>,
    with its \<^verbatim>\<open>dataToSend\<close>; \<open>None\<close> when the mutex is free;
  \<^item> \<open>console\<close>: the messages written with \<^verbatim>\<open>console.error\<close>;
  \<^item> \<open>fetched\<close>: the requests issued; \<open>sent\<close>: the snapshots whose \<^verbatim>\<open>send\<close> returned;
  \<^item> \<open>shutdown_returned\<close>: whether the promise of \<^verbatim>\<open>shutdown()\<close> has resolved;
  \<^item> \<open>rejections\<close>: the promises of \<^verbatim>\<open>flush()\<close> and \<^verbatim>\<open>shutdown()\<close> that were rejected
    into the hands of the application, with their reason;
  \<^item> \<open>argument_limit\<close>: the number of arguments that the engine, on which the client
    runs, accepts in one call. It is a property of the engine, not of the client, and
    never changes; a spread call \<^verbatim>\<open>f(...xs)\<close> with more elements throws a
    \<^verbatim>\<open>RangeError\<close> before \<^verbatim>\<open>f\<close> runs.
\<close>

record VictoriaMetricsClient =
  options :: Options
  buffer :: "string list"
  timerId :: bool
  bufferMutex :: "caller list"
  sending :: "(caller \<times> string list) option"
  console :: "console_message list"
  fetched :: "request list"
  sent :: "string list list"
  shutdown_returned :: bool
  rejections :: "(caller \<times> error) list"
  argument_limit :: nat

text \<open>The constructor, on an engine with the given limit of arguments.\<close>

definition constructor :: "nat \<Rightarrow> VMClientOptions \<Rightarrow> VictoriaMetricsClient" where
  "constructor engine_limit opts =
     \<lparr>options = \<lparr>url = opt_url opts, auth = opt_auth opts,
                  batchSize = (case opt_batchSize opts of Some n \<Rightarrow> n | None \<Rightarrow> 1000),
                  flushInterval = (case opt_flushInterval opts of Some n \<Rightarrow> n | None \<Rightarrow> 5000)\<rparr>,
      buffer = [], timerId = True, bufferMutex = [], sending = None, console = [],
      fetched = [], sent = [], shutdown_returned = False, rejections = [],
      argument_limit = engine_limit\<rparr>"

text \<open>
  \<^verbatim>\<open>flush()\<close> has three pieces. The call asks for the mutex and returns a promise
  (\<open>flush_call\<close>). When the mutex is free the callback of the oldest waiting call runs up to
  \<^verbatim>\<open>await this.send\<close>, or to its end when the buffer is empty (\<open>flush_enter\<close>). When the
  \<^verbatim>\<open>fetch\<close> of \<^verbatim>\<open>send\<close> has settled the callback runs to its end and the mutex is
  released (\<open>flush_resume\<close>). \<open>resolve\<close> is the promise of the call resolving, for which
  only \<^verbatim>\<open>shutdown\<close> waits. \<open>reject\<close> is the promise of the call being rejected: the
  interval and \<^verbatim>\<open>writePoint\<close> log the reason, a call of the application and
  \<^verbatim>\<open>shutdown\<close>, which awaits the promise without a handler, pass it on to the application.

  In the \<^verbatim>\<open>catch\<close> of the callback the reason is logged, then the snapshot is put back
  with \<^verbatim>\<open>this.buffer.unshift(...dataToSend)\<close>, a call with one argument for every line:
  with more lines than the engine accepts arguments the call throws, the buffer stays as
  it is, the exception leaves the callback, the mutex is released and the promise of
  \<^verbatim>\<open>flush()\<close> is rejected.
\<close>

definition flush_call :: "caller \<Rightarrow> VictoriaMetricsClient \<Rightarrow> VictoriaMetricsClient" where
  "flush_call who c = c\<lparr>bufferMutex := bufferMutex c @ [who]\<rparr>"

definition resolve :: "caller \<Rightarrow> VictoriaMetricsClient \<Rightarrow> VictoriaMetricsClient" where
  "resolve who c = (if who = Shutdown then c\<lparr>shutdown_returned := True\<rparr> else c)"

definition reject :: "caller \<Rightarrow> error \<Rightarrow> VictoriaMetricsClient \<Rightarrow> VictoriaMetricsClient" where
  "reject who e c =
     (if who = Timer \<or> who = Threshold then c\<lparr>console := console c @ [FlushError e]\<rparr>
      else c\<lparr>rejections := rejections c @ [(who, e)]\<rparr>)"

definition flush_enter :: "VictoriaMetricsClient \<Rightarrow> VictoriaMetricsClient option" where
  "flush_enter c =
     (case sending c of
        Some holder \<Rightarrow> None
      | None \<Rightarrow>
         (case bufferMutex c of
            [] \<Rightarrow> None
          | who # waiting \<Rightarrow>
              if length (buffer c) = 0
              then Some (resolve who (c\<lparr>bufferMutex := waiting\<rparr>))
              else let dataToSend = buffer c
                   in Some (c\<lparr>bufferMutex := waiting, buffer := [],
                              sending := Some (who, dataToSend),
                              fetched := fetched c @ [send_request (options c) dataToSend]\<rparr>)))"

definition flush_resume :: "fetch_result \<Rightarrow> VictoriaMetricsClient \<Rightarrow> VictoriaMetricsClient option" where
  "flush_resume r c =
     (case sending c of
        None \<Rightarrow> None
      | Some (who, dataToSend) \<Rightarrow>
         (case send_settle r of
            Inr u \<Rightarrow> Some (resolve who (c\<lparr>sending := None, sent := sent c @ [dataToSend]\<rparr>))
          | Inl e \<Rightarrow>
              let c' = c\<lparr>sending := None, console := console c @ [FlushFailed e]\<rparr>
              in if length dataToSend > argument_limit c
                 then Some (reject who RangeError c')
                 else Some (resolve who (c'\<lparr>buffer := dataToSend @ buffer c\<rparr>))))"

definition writePoint :: "VMDataPoint \<Rightarrow> VictoriaMetricsClient \<Rightarrow> VictoriaMetricsClient" where
  "writePoint point c =
     (case formatLineProtocol point of
        Inl e \<Rightarrow> c\<lparr>console := console c @ [FormatFailed e]\<rparr>
      | Inr line \<Rightarrow>
          let c' = c\<lparr>buffer := buffer c @ [line]\<rparr>
          in if int (length (buffer c')) \<ge> batchSize (options c')
             then flush_call Threshold c' else c')"

text \<open>\<^verbatim>\<open>shutdown()\<close> up to its \<^verbatim>\<open>await\<close>: the interval is cleared, then \<^verbatim>\<open>flush()\<close> is called.\<close>

definition shutdown :: "VictoriaMetricsClient \<Rightarrow> VictoriaMetricsClient" where
  "shutdown c = flush_call Shutdown (c\<lparr>timerId := False\<rparr>)"

text \<open>
  What can happen to a client, one piece at a time: the application calls
  \<^verbatim>\<open>writePoint\<close>, \<^verbatim>\<open>flush\<close> or \<^verbatim>\<open>shutdown\<close>; the interval fires, which it does only
  while it is set; a waiting flush enters the mutex; the request of the flush in the mutex
  settles. \<open>None\<close>: the event cannot happen in this state.
\<close>

datatype event =
  WritePoint VMDataPoint | FlushCall | Tick | ShutdownCall | Enter | Settle fetch_result

fun step :: "event \<Rightarrow> VictoriaMetricsClient \<Rightarrow> VictoriaMetricsClient option" where
  "step (WritePoint p) c = Some (writePoint p c)"
| "step FlushCall c = Some (flush_call Manual c)"
| "step Tick c = (if timerId c then Some (flush_call Timer c) else None)"
| "step ShutdownCall c = Some (shutdown c)"
| "step Enter c = flush_enter c"
| "step (Settle r) c = flush_resume r c"

fun run :: "event list \<Rightarrow> VictoriaMetricsClient \<Rightarrow> VictoriaMetricsClient option" where
  "run [] c = Some c"
| "run (e # es) c = (case step e c of None \<Rightarrow> None | Some c' \<Rightarrow> run es c')"

text \<open>The lines that the calls of \<^verbatim>\<open>writePoint\<close> among the events encode, in order.\<close>

fun accepted :: "event list \<Rightarrow> string list" where
  "accepted [] = []"
| "accepted (WritePoint p # es) =
     (case formatLineProtocol p of Inl e \<Rightarrow> accepted es | Inr line \<Rightarrow> line # accepted es)"
| "accepted (e # es) = accepted es"

text \<open>The snapshot of the flush that holds the mutex, empty when there is none.\<close>

definition snapshot :: "VictoriaMetricsClient \<Rightarrow> string list" where
  "snapshot c = (case sending c of None \<Rightarrow> [] | Some (who, dataToSend) \<Rightarrow> dataToSend)"


section \<open>The encoding in the words of the specification\<close>

text \<open>
  The escaping rule: every character of a given set is preceded by a backslash, every
  other character is kept.
\<close>

fun backslash_escaped :: "char set \<Rightarrow> string \<Rightarrow> string" where
  "backslash_escaped S [] = []"
| "backslash_escaped S (c # cs) =
     (if c \<in> S then backslash # c # backslash_escaped S cs else c # backslash_escaped S cs)"

text \<open>
  Field value rendering by type: a string is double-quoted with backslash and double quote
  escaped, a boolean is the token \<open>t\<close> or \<open>f\<close>, a number is its decimal literal.
\<close>

definition field_value_text :: "field_value \<Rightarrow> string" where
  "field_value_text v =
     (case v of
        FString s \<Rightarrow> [dquote] @ backslash_escaped {backslash, dquote} s @ [dquote]
      | FBoolean b \<Rightarrow> (if b then ''t'' else ''f'')
      | FNumber n \<Rightarrow> number_toString n)"

text \<open>
  The output shape: the escaped measurement, then \<open>,key=value\<close> for every tag, a space,
  the fields as \<open>key=value\<close> separated by commas, a space and the timestamp, trimmed.
  Tag keys, tag values and field keys are escaped for comma, equals sign and space; the set
  of characters escaped in the measurement name is the parameter \<open>M\<close>.
\<close>

definition escaped_line :: "char set \<Rightarrow> VMDataPoint \<Rightarrow> string" where
  "escaped_line M p =
     trim (backslash_escaped M (measurement p)
           @ concat (map (\<lambda>(k, v). '','' @ backslash_escaped {CHR '','', CHR ''='', CHR '' ''} k
                                  @ ''='' @ backslash_escaped {CHR '','', CHR ''='', CHR '' ''} v)
                         (tags p))
           @ '' ''
           @ join '','' (map (\<lambda>(k, v). backslash_escaped {CHR '','', CHR ''='', CHR '' ''} k
                                  @ ''='' @ field_value_text v) (fields_rec p))
           @ '' '' @ timestamp_line p)"

text \<open>The number that a string of decimal digits, with an optional minus sign, denotes.\<close>

definition digit_value :: "char \<Rightarrow> nat" where
  "digit_value c = of_char c - 48"

definition decimal_value :: "string \<Rightarrow> nat" where
  "decimal_value s = foldl (\<lambda>acc c. 10 * acc + digit_value c) 0 s"

definition decimal_int :: "string \<Rightarrow> int" where
  "decimal_int s =
     (case s of
        [] \<Rightarrow> 0
      | c # ds \<Rightarrow> if c = CHR ''-'' then - int (decimal_value ds) else int (decimal_value s))"


section \<open>Strings: escaping, joining, trimming, decimal literals\<close>

lemma bits_bounds: "0 < a \<Longrightarrow> 2 ^ (bits a - 1) \<le> a \<and> a < 2 ^ bits a"
proof (induction a rule: bits.induct)
  case (1 a)
  show ?case
  proof (cases "a div 2 = 0")
    case True
    then have "a = 1" using "1.prems" by auto
    then show ?thesis by (simp add: bits.simps)
  next
    case False
    then have ih: "2 ^ (bits (a div 2) - 1) \<le> a div 2" "a div 2 < 2 ^ bits (a div 2)"
      using "1.IH" "1.prems" by auto
    have pos: "0 < bits (a div 2)" using False by (simp add: bits.simps)
    have b: "bits a = Suc (bits (a div 2))" using "1.prems" by (simp add: bits.simps)
    have "(2::nat) ^ (bits a - 1) = 2 * 2 ^ (bits (a div 2) - 1)"
      using b pos by (cases "bits (a div 2)") simp_all
    moreover have "(2::nat) ^ bits a = 2 * 2 ^ bits (a div 2)" using b by simp
    ultimately show ?thesis using ih by linarith
  qed
qed

lemma bits_le: "a < 2 ^ k \<Longrightarrow> bits a \<le> k"
proof (rule ccontr)
  assume a: "a < 2 ^ k" and "\<not> bits a \<le> k"
  then have k: "k \<le> bits a - 1" by simp
  then have "0 < a" using \<open>\<not> bits a \<le> k\<close> by (cases "a = 0") (simp_all add: bits.simps)
  then have q: "2 ^ (bits a - 1) \<le> a" using bits_bounds by blast
  have p: "(2::nat) ^ k \<le> 2 ^ (bits a - 1)" using k by (intro power_increasing) simp_all
  from le_trans [OF p q] a show False by linarith
qed

lemma round_double_error:
  "2 ^ 53 * (round_double a - a) \<le> a \<and> 2 ^ 53 * (a - round_double a) \<le> a"
proof (cases "bits a - 53 = 0")
  case True
  then show ?thesis by (simp add: round_double_def)
next
  case False
  define e where "e = bits a - 53"
  define q where "q = a div 2 ^ e"
  define r where "r = a mod 2 ^ e"
  define h :: nat where "h = 2 ^ (e - 1)"
  have e: "0 < e" "bits a = e + 53" using False by (simp_all add: e_def)
  then have apos: "0 < a" by (cases "a = 0") (simp_all add: bits.simps)
  have E: "(2::nat) ^ e = 2 * h" using e(1) by (cases e) (simp_all add: h_def)
  have a: "a = q * (2 * h) + r" "r < 2 * h"
    unfolding q_def r_def E [symmetric]
    using div_mult_mod_eq [of a "2 ^ e"] by simp_all
  have "2 ^ (bits a - 1) \<le> a" using bits_bounds [OF apos] by blast
  moreover have "(2::nat) ^ (bits a - 1) = 2 ^ 53 * h"
  proof -
    have "bits a - 1 = 53 + (e - 1)" using e by simp
    then show ?thesis by (simp add: power_add h_def)
  qed
  ultimately have big: "2 ^ 53 * h \<le> a" by simp
  have "round_double a = (if r < h \<or> (r = h \<and> even q) then q else q + 1) * 2 ^ e"
    using False by (simp add: round_double_def Let_def e_def q_def r_def h_def)
  then have rd: "round_double a = (if r < h \<or> (r = h \<and> even q) then q else q + 1) * (2 * h)"
    unfolding E .
  show ?thesis
  proof (cases "r < h \<or> (r = h \<and> even q)")
    case True
    then have "(if r < h \<or> (r = h \<and> even q) then q else q + 1) = q" by (simp only: if_True)
    then have "round_double a = q * (2 * h)" using rd by simp
    then have "round_double a - a = 0" "a - round_double a = r" using a by simp_all
    moreover have "r \<le> h" using True by auto
    ultimately show ?thesis using big
      by (metis le_trans mult_0_right mult_le_mono2 zero_le)
  next
    case False
    then have "(if r < h \<or> (r = h \<and> even q) then q else q + 1) = q + 1" by (simp only: if_False)
    then have "round_double a = (q + 1) * (2 * h)" using rd by simp
    then have "round_double a = q * (2 * h) + 2 * h" by simp
    then have "round_double a - a = 2 * h - r" "a - round_double a = 0" using a by simp_all
    moreover have "2 * h - r \<le> h" using False by auto
    ultimately show ?thesis using big
      by (metis le_trans mult_0_right mult_le_mono2 zero_le)
  qed
qed


lemma bits_double: "0 < a \<Longrightarrow> bits (2 * a) = Suc (bits a)"
  using bits.simps [of "2 * a"] by simp

lemma bits_mult_power: "0 < c \<Longrightarrow> bits (c * 2 ^ j) = bits c + j"
proof (induction j)
  case 0
  then show ?case by simp
next
  case (Suc j)
  have eq: "c * 2 ^ Suc j = 2 * (c * 2 ^ j)" by simp
  have "0 < c * 2 ^ j" using Suc.prems by simp
  then have "bits (2 * (c * 2 ^ j)) = Suc (bits (c * 2 ^ j))" by (rule bits_double)
  then show ?case unfolding eq using Suc by simp
qed

lemma round_double_exact:
  assumes "bits c \<le> 53"
  shows "round_double (c * 2 ^ j) = c * 2 ^ j"
proof (cases "c = 0")
  case True
  then show ?thesis by (simp add: round_double_def bits.simps)
next
  case False
  define e where "e = bits (c * 2 ^ j) - 53"
  have b: "bits (c * 2 ^ j) = bits c + j" using False by (simp add: bits_mult_power)
  show ?thesis
  proof (cases "e = 0")
    case True
    then show ?thesis by (simp add: round_double_def e_def)
  next
    case nz: False
    have ej: "e \<le> j" using assms b by (simp add: e_def)
    then have split: "c * 2 ^ j = (c * 2 ^ (j - e)) * 2 ^ e"
      by (simp add: power_add [symmetric])
    have m: "(c * 2 ^ j) mod 2 ^ e = 0" by (subst split) simp
    have d: "(c * 2 ^ j) div 2 ^ e = c * 2 ^ (j - e)" by (subst split) simp
    have h: "(0::nat) < 2 ^ (e - 1)" by simp
    have "round_double (c * 2 ^ j) = (c * 2 ^ (j - e)) * 2 ^ e"
      using nz m d h by (simp add: round_double_def Let_def e_def)
    then show ?thesis using split by (simp only:)
  qed
qed

lemma round_double_small: "a < 2 ^ 53 \<Longrightarrow> round_double a = a"
  using round_double_exact [of a 0] bits_le [of a 53] by simp

lemma round_double_power10:
  assumes "j \<le> 22"
  shows "round_double (10 ^ j) = 10 ^ j"
proof -
  have "(5::nat) ^ j \<le> 5 ^ 22" using assms by (intro power_increasing) simp_all
  also have "(5::nat) ^ 22 < 2 ^ 53" by simp
  finally have "bits (5 ^ j) \<le> 53" by (rule bits_le)
  then have "round_double (5 ^ j * 2 ^ j) = 5 ^ j * 2 ^ j" by (rule round_double_exact)
  moreover have "(10::nat) ^ j = 5 ^ j * 2 ^ j"
    using power_mult_distrib [of "5::nat" 2 j] by simp
  ultimately show ?thesis by simp
qed

lemma ndigits_bounds: "0 < a \<Longrightarrow> 10 ^ (ndigits a - 1) \<le> a \<and> a < 10 ^ ndigits a"
proof (induction a rule: ndigits.induct)
  case (1 a)
  show ?case
  proof (cases "a div 10 = 0")
    case True
    then have "a < 10" using "1.prems" by auto
    then show ?thesis using "1.prems" True by (simp add: ndigits.simps [of a] ndigits.simps [of 0])
  next
    case False
    then have ih: "10 ^ (ndigits (a div 10) - 1) \<le> a div 10" "a div 10 < 10 ^ ndigits (a div 10)"
      using "1.IH" "1.prems" by auto
    have pos: "0 < ndigits (a div 10)" using False by (simp add: ndigits.simps)
    have b: "ndigits a = Suc (ndigits (a div 10))" using "1.prems" by (simp add: ndigits.simps)
    have "(10::nat) ^ (ndigits a - 1) = 10 * 10 ^ (ndigits (a div 10) - 1)"
      using b pos by (cases "ndigits (a div 10)") simp_all
    moreover have "(10::nat) ^ ndigits a = 10 * 10 ^ ndigits (a div 10)" using b by simp
    ultimately show ?thesis using ih by linarith
  qed
qed

lemma ndigits_gt: "10 ^ j \<le> a \<Longrightarrow> j < ndigits a"
proof -
  assume a: "10 ^ j \<le> a"
  then have "0 < a" by (cases "a = 0") simp_all
  then have "a < 10 ^ ndigits a" using ndigits_bounds by blast
  then have "(10::nat) ^ j < 10 ^ ndigits a" using a by linarith
  then show ?thesis by (simp add: power_less_imp_less_exp)
qed


lemma candidate_cases:
  assumes "0 < P"
    and "round_double ((v div P) * P) = v \<Longrightarrow> (v div P) * P = x"
    and "round_double ((v div P) * P + P) = v \<Longrightarrow> (v div P) * P + P = x"
  shows "candidate v P = None \<or> candidate v P = Some x"
proof -
  let ?lo = "(v div P) * P"
  have ne: "?lo \<noteq> ?lo + P" using assms(1) by simp
  show ?thesis
  proof (cases "round_double ?lo = v")
    case lo: True
    then have l: "?lo = x" by (rule assms(2))
    then have "round_double (?lo + P) \<noteq> v" using assms(3) ne by auto
    then show ?thesis using lo l by (simp add: candidate_def Let_def)
  next
    case lo: False
    show ?thesis
    proof (cases "round_double (?lo + P) = v")
      case True
      then show ?thesis using lo assms(3) by (simp add: candidate_def Let_def)
    next
      case False
      then show ?thesis using lo by (simp add: candidate_def Let_def)
    qed
  qed
qed

lemma candidate_not_None:
  "round_double ((v div P) * P) = v \<or> round_double ((v div P) * P + P) = v
   \<Longrightarrow> candidate v P \<noteq> None"
  by (auto simp: candidate_def Let_def)

lemma shortest_round_double:
  assumes s: "0 < s" "s < 10 ^ 15" and j: "j \<le> 22"
  shows "shortest (round_double (s * 10 ^ j)) = s * 10 ^ j"
proof -
  define D :: nat where "D = 10 ^ j"
  define x where "x = s * D"
  define v where "v = round_double x"
  have K: "(2::nat) ^ 53 = 9007199254740992" by simp
  have T: "(10::nat) ^ 15 = 1000000000000000" by simp
  have Dpos: "0 < D" by (simp add: D_def)
  have xD: "D \<le> x" using s(1) by (simp add: x_def)
  have xb: "x < 1000000000000000 * D"
    using s(2) Dpos unfolding x_def T by simp
  have ex: "9007199254740992 * (v - x) \<le> x" "9007199254740992 * (x - v) \<le> x"
    using round_double_error [of x] unfolding v_def K by simp_all
  have vx: "v \<le> 2 * x" using ex(1) by linarith
  have close: "v - x < D" "x - v < D" using ex xb by linarith+
  have vD: "D \<le> v"
  proof (cases "s = 1")
    case True
    then have "v = x" using round_double_power10 [OF j] by (simp add: v_def x_def D_def)
    then show ?thesis using xD by simp
  next
    case False
    then have "2 \<le> s" using s(1) by simp
    then have "2 * D \<le> x" unfolding x_def by (metis mult_le_mono1)
    then show ?thesis using close(2) by linarith
  qed
  have uniq: "y = x" if rd: "round_double y = v" and dv: "D dvd y" and yb: "y \<le> 4 * x" for y
  proof (rule ccontr)
    assume ne: "y \<noteq> x"
    obtain t where t: "y = t * D" using dv by (auto simp: dvd_def mult.commute)
    have ey: "9007199254740992 * (v - y) \<le> y" "9007199254740992 * (y - v) \<le> y"
      using round_double_error [of y] unfolding rd K by simp_all
    have "t \<noteq> s" using ne t x_def by auto
    then consider "t + 1 \<le> s" | "s + 1 \<le> t" by linarith
    then show False
    proof cases
      case 1
      then have "(t + 1) * D \<le> s * D" by (rule mult_le_mono1)
      then have "y + D \<le> x" by (simp add: t x_def)
      then show False using ex ey xb yb Dpos by linarith
    next
      case 2
      then have "(s + 1) * D \<le> t * D" by (rule mult_le_mono1)
      then have "x + D \<le> y" by (simp add: t x_def)
      then show False using ex ey xb yb Dpos by linarith
    qed
  qed
  have cand: "candidate v (10 ^ m) = None \<or> candidate v (10 ^ m) = Some x"
    if m: "j \<le> m" and le: "10 ^ m \<le> v" for m
  proof (rule candidate_cases)
    let ?P = "(10::nat) ^ m"
    show "0 < ?P" by simp
    have "?P = 10 ^ (m - j) * D" using m by (simp add: D_def power_add [symmetric])
    then have dP: "D dvd ?P" by simp
    have lo: "(v div ?P) * ?P \<le> v" by simp
    show "(v div ?P) * ?P = x" if "round_double ((v div ?P) * ?P) = v"
    proof (rule uniq [OF that])
      show "D dvd (v div ?P) * ?P" using dP by simp
      show "(v div ?P) * ?P \<le> 4 * x" using lo vx by linarith
    qed
    show "(v div ?P) * ?P + ?P = x" if "round_double ((v div ?P) * ?P + ?P) = v"
    proof (rule uniq [OF that])
      show "D dvd (v div ?P) * ?P + ?P" using dP by simp
      show "(v div ?P) * ?P + ?P \<le> 4 * x" using lo le vx by linarith
    qed
  qed
  have base: "candidate v D = Some x"
  proof -
    have rx: "round_double x = v" by (simp add: v_def)
    have "round_double ((v div D) * D) = v \<or> round_double ((v div D) * D + D) = v"
    proof (cases "x \<le> v")
      case True
      then have "s * D \<le> v" "v < Suc s * D" using close(1) by (simp_all add: x_def)
      then have "v div D = s"
        by (metis div_nat_eqI mult.commute)
      then show ?thesis using rx by (simp add: x_def)
    next
      case False
      then have "v < x" by simp
      then have s1: "1 \<le> s" using s(1) by simp
      have "(s - 1) * D + D = x" using s1 by (simp add: x_def diff_mult_distrib)
      then have "(s - 1) * D \<le> v" "v < Suc (s - 1) * D"
        using close(2) \<open>v < x\<close> by simp_all
      then have "v div D = s - 1"
        by (metis div_nat_eqI mult.commute)
      then show ?thesis using rx \<open>(s - 1) * D + D = x\<close> by simp
    qed
    then have "candidate v D \<noteq> None" by (rule candidate_not_None)
    moreover have "candidate v D = None \<or> candidate v D = Some x"
      using cand [of j] vD by (simp add: D_def)
    ultimately show ?thesis by auto
  qed
  have search: "j \<le> m \<Longrightarrow> 10 ^ m \<le> v \<Longrightarrow> shortest_at v m = x" for m
  proof (induction m)
    case 0
    then have "D = 1" by (simp add: D_def)
    then have "x < 2 ^ 53" using xb unfolding K by simp
    then show ?case by (simp add: v_def round_double_small)
  next
    case (Suc m)
    show ?case
    proof (cases "j = Suc m")
      case True
      then have "candidate v (10 ^ Suc m) = Some x" using base by (simp add: D_def)
      then show ?thesis by simp
    next
      case False
      then have jm: "j \<le> m" using Suc.prems by simp
      have "(10::nat) ^ m \<le> 10 ^ Suc m" by simp
      then have le: "10 ^ m \<le> v" using Suc.prems(2) by linarith
      from cand [OF Suc.prems] show ?thesis
      proof
        assume "candidate v (10 ^ Suc m) = None"
        then show ?thesis using Suc.IH [OF jm le] by simp
      next
        assume "candidate v (10 ^ Suc m) = Some x"
        then show ?thesis by simp
      qed
    qed
  qed
  have vpos: "0 < v" using vD Dpos by linarith
  have "j < ndigits v" using vD by (intro ndigits_gt) (simp add: D_def)
  then have "j \<le> ndigits v - 1" by simp
  moreover have "10 ^ (ndigits v - 1) \<le> v" using ndigits_bounds [OF vpos] by blast
  ultimately have "shortest_at v (ndigits v - 1) = x" by (rule search)
  then show ?thesis by (simp add: shortest_def v_def x_def D_def)
qed

lemma replace_all_Nil: "replace_all cls r [] = []"
  by (simp add: replace_all_def)

lemma replace_all_Cons:
  "replace_all cls r (c # cs) = (if cls c then r c else [c]) @ replace_all cls r cs"
  by (simp add: replace_all_def)

lemma replace_all_append:
  "replace_all cls r (xs @ ys) = replace_all cls r xs @ replace_all cls r ys"
  by (simp add: replace_all_def)

lemma escapeTag_escaped: "escapeTag s = backslash_escaped {CHR '','', CHR ''='', CHR '' ''} s"
  by (induction s) (auto simp: escapeTag_def replace_all_Nil replace_all_Cons)

lemma escapeMeasurement_escaped:
  "escapeMeasurement s = backslash_escaped {CHR '','', CHR '' ''} s"
  by (induction s) (auto simp: escapeMeasurement_def replace_all_Nil replace_all_Cons)

lemma escapeStringField_escaped:
  "escapeStringField s = backslash_escaped {backslash, dquote} s"
proof (induction s)
  case Nil
  then show ?case by (simp add: escapeStringField_def replace_all_Nil)
next
  case (Cons c cs)
  have ne: "backslash \<noteq> dquote" by (simp add: backslash_def dquote_def)
  from Cons show ?case
    using ne by (auto simp: escapeStringField_def replace_all_Nil replace_all_Cons replace_all_append)
qed

lemma backslash_escaped_preceded:
  assumes "backslash \<notin> S"
  shows "i < length (backslash_escaped S s) \<Longrightarrow> backslash_escaped S s ! i \<in> S \<Longrightarrow>
         0 < i \<and> backslash_escaped S s ! (i - 1) = backslash"
proof (induction s arbitrary: i)
  case Nil
  then show ?case by simp
next
  case (Cons c cs)
  show ?case
  proof (cases "c \<in> S")
    case True
    show ?thesis
    proof (cases i)
      case 0
      then show ?thesis using Cons.prems True assms by simp
    next
      case (Suc j)
      show ?thesis
      proof (cases j)
        case 0
        then show ?thesis using Suc True by simp
      next
        case (Suc k)
        then have "k < length (backslash_escaped S cs)" "backslash_escaped S cs ! k \<in> S"
          using Cons.prems True \<open>i = Suc j\<close> by simp_all
        from Cons.IH [OF this] show ?thesis using True \<open>i = Suc j\<close> Suc
          by (cases k) simp_all
      qed
    qed
  next
    case False
    show ?thesis
    proof (cases i)
      case 0
      then show ?thesis using Cons.prems False by simp
    next
      case (Suc j)
      then have "j < length (backslash_escaped S cs)" "backslash_escaped S cs ! j \<in> S"
        using Cons.prems False by simp_all
      from Cons.IH [OF this] show ?thesis using False Suc by (cases j) simp_all
    qed
  qed
qed

lemma join_concat: "xs \<noteq> [] \<Longrightarrow> sep @ join sep xs = concat (map (\<lambda>x. sep @ x) xs)"
  by (induction sep xs rule: join.induct) auto

lemma join_Cons_nonempty: "x \<noteq> [] \<Longrightarrow> join sep (x # xs) \<noteq> []"
  by (cases xs) auto

lemma join_last:
  "xs \<noteq> [] \<Longrightarrow> last xs \<noteq> [] \<Longrightarrow> join sep xs \<noteq> [] \<and> last (join sep xs) = last (last xs)"
  by (induction sep xs rule: join.induct) auto

lemma dropWhile_last:
  "x \<noteq> [] \<Longrightarrow> \<not> P (last x) \<Longrightarrow> dropWhile P x \<noteq> [] \<and> last (dropWhile P x) = last x"
  by (induction x) (auto split: if_splits)

lemma dropWhile_append_keep:
  "\<exists>a\<in>set xs. \<not> P a \<Longrightarrow> dropWhile P (xs @ ys) = dropWhile P xs @ ys"
  by (induction xs) auto

lemma trim_no_trailing:
  assumes "x \<noteq> []" and "\<not> isWhiteSpace (last x)"
  shows "trim x = dropWhile isWhiteSpace x"
proof -
  let ?y = "dropWhile isWhiteSpace x"
  have y: "?y \<noteq> []" "last ?y = last x" using dropWhile_last [where P = isWhiteSpace, OF assms] by simp_all
  then obtain ys where ys: "?y = ys @ [last x]"
    using append_butlast_last_id [of ?y] by metis
  have "dropWhile isWhiteSpace (rev (ys @ [last x])) = rev (ys @ [last x])"
    using assms(2) by simp
  then have "dropWhile isWhiteSpace (rev ?y) = rev ?y"
    using ys by simp
  then show ?thesis by (simp add: trim_def)
qed

lemma trim_trailing_space:
  assumes "x \<noteq> []" and "\<not> isWhiteSpace (last x)"
  shows "trim (x @ '' '') = dropWhile isWhiteSpace x"
proof -
  have "\<exists>a\<in>set x. \<not> isWhiteSpace a" using assms last_in_set by blast
  then have d: "dropWhile isWhiteSpace (x @ '' '') = dropWhile isWhiteSpace x @ '' ''"
    by (rule dropWhile_append_keep)
  have sp: "isWhiteSpace (CHR '' '')" by (simp add: isWhiteSpace_def)
  have "trim (x @ '' '') = rev (dropWhile isWhiteSpace (rev (dropWhile isWhiteSpace x)))"
    using sp by (simp add: trim_def d)
  also have "\<dots> = trim x" by (simp add: trim_def)
  finally show ?thesis using trim_no_trailing [OF assms] by simp
qed

lemma less_10_cases:
  "(d::nat) < 10 \<Longrightarrow> d = 0 \<or> d = 1 \<or> d = 2 \<or> d = 3 \<or> d = 4 \<or> d = 5 \<or> d = 6 \<or> d = 7 \<or> d = 8 \<or> d = 9"
  by arith

lemma digit_props:
  assumes "d < 10"
  shows "digit_value (digit d) = d" and "\<not> isWhiteSpace (digit d)" and "digit d \<noteq> CHR ''-''"
    and "digit d \<in> set ''0123456789''"
  using less_10_cases [OF assms]
  by (auto simp: digit_def digit_value_def isWhiteSpace_def)

lemma decimal_value_snoc: "decimal_value (s @ [c]) = 10 * decimal_value s + digit_value c"
  by (simp add: decimal_value_def)

lemma decimal_value_nat_toString: "decimal_value (nat_toString n) = n"
proof (induction n rule: nat_toString.induct)
  case (1 n)
  show ?case
  proof (cases "n < 10")
    case True
    then show ?thesis
      using nat_toString.simps [of n] digit_props(1) [of n] by (simp add: decimal_value_def)
  next
    case False
    have "n mod 10 < 10" by simp
    then have "digit_value (digit (n mod 10)) = n mod 10" by (rule digit_props(1))
    then show ?thesis
      using False 1 nat_toString.simps [of n] by (simp add: decimal_value_snoc)
  qed
qed

lemma nat_toString_last:
  "nat_toString n \<noteq> [] \<and> last (nat_toString n) = digit (n mod 10)"
  using nat_toString.simps [of n] by (cases "n < 10") simp_all

lemma nat_toString_hd: "hd (nat_toString n) \<noteq> CHR ''-''"
proof (induction n rule: nat_toString.induct)
  case (1 n)
  show ?case
  proof (cases "n < 10")
    case True
    then show ?thesis using nat_toString.simps [of n] digit_props(3) [of n] by simp
  next
    case False
    then show ?thesis
      using 1 nat_toString.simps [of n] nat_toString_last [of "n div 10"] by simp
  qed
qed

lemma nat_toString_digits: "set (nat_toString n) \<subseteq> set ''0123456789''"
proof (induction n rule: nat_toString.induct)
  case (1 n)
  show ?case
  proof (cases "n < 10")
    case True
    then show ?thesis using nat_toString.simps [of n] digit_props(4) [of n] by simp
  next
    case False
    have "n mod 10 < 10" by simp
    then have "digit (n mod 10) \<in> set ''0123456789''" by (rule digit_props(4))
    then show ?thesis
      using False 1 nat_toString.simps [of n] by simp
  qed
qed

lemma number_toString_exact:
  assumes x: "nat \<bar>i\<bar> = s * 10 ^ j" and s: "s < 10 ^ 15" and j: "j \<le> 22"
    and small: "\<bar>i\<bar> < 10 ^ 21"
  shows "number_toString i = (if i < 0 then ''-'' else []) @ nat_toString (nat \<bar>i\<bar>)"
proof -
  define a where "a = nat \<bar>i\<bar>"
  have "int a < 10 ^ 21" using small by (simp add: a_def)
  then have a21: "a < 10 ^ 21" by (metis of_nat_less_iff of_nat_numeral of_nat_power)
  have sh: "shortest (round_double a) = a"
  proof (cases "s = 0")
    case True
    then have "a = 0" using x by (simp add: a_def)
    then show ?thesis
      by (simp add: round_double_small shortest_def ndigits.simps)
  next
    case False
    then show ?thesis using shortest_round_double [OF _ s j] x by (simp add: a_def)
  qed
  have "2 ^ 53 * (round_double a - a) \<le> a" using round_double_error by blast
  then have "round_double a \<le> 2 * a" by simp
  also have "2 * a < 2 ^ 1024" using a21 by simp
  finally have fin: "\<not> round_double a \<ge> 2 ^ 1024" by simp
  show ?thesis
    using fin sh a21
    unfolding number_toString_def Let_def a_def [symmetric] by simp
qed

lemma number_toString_small:
  "0 \<le> i \<Longrightarrow> i < 1000000000000000 \<Longrightarrow> number_toString i = nat_toString (nat i)"
  using number_toString_exact [of i "nat i" 0] by simp

lemma number_toString_product:
  assumes "\<bar>ms\<bar> < 10 ^ 15"
  shows "number_toString (ms * 1000000)
       = (if ms < 0 then ''-'' else []) @ nat_toString (nat \<bar>ms\<bar> * 1000000)"
proof -
  have n: "nat \<bar>ms * 1000000\<bar> = nat \<bar>ms\<bar> * 10 ^ 6"
    by (simp add: abs_mult nat_mult_distrib)
  have "int (nat \<bar>ms\<bar>) < 10 ^ 15" using assms by simp
  then have s: "nat \<bar>ms\<bar> < 10 ^ 15" by (metis of_nat_less_iff of_nat_numeral of_nat_power)
  have b: "\<bar>ms * 1000000\<bar> < 10 ^ 21" using assms by (simp add: abs_mult)
  have "(ms * 1000000 < 0) = (ms < 0)" by simp
  then show ?thesis
    using number_toString_exact [OF n s _ b] n by simp
qed

lemma number_toString_last:
  "number_toString i \<noteq> [] \<and> \<not> isWhiteSpace (last (number_toString i))"
proof -
  have d: "nat_toString n \<noteq> [] \<and> \<not> isWhiteSpace (last (nat_toString n))" for n
    using nat_toString_last [of n] digit_props(2) [of "n mod 10"] by simp
  have e: "exponent_form y \<noteq> [] \<and> \<not> isWhiteSpace (last (exponent_form y))" for y
    using d [of "ndigits y - 1"] by (simp add: exponent_form_def)
  have f: "\<not> isWhiteSpace (last ''Infinity'')" by (simp add: isWhiteSpace_def)
  show ?thesis
    using d e f by (simp add: number_toString_def Let_def)
qed

lemma decimal_int_signed:
  "decimal_int ((if neg then ''-'' else []) @ nat_toString n) = (if neg then - int n else int n)"
proof (cases neg)
  case True
  then show ?thesis by (simp add: decimal_int_def decimal_value_nat_toString)
next
  case False
  obtain c ds where s: "nat_toString n = c # ds"
    using nat_toString_last [of n] by (cases "nat_toString n") auto
  then have "c \<noteq> CHR ''-''" using nat_toString_hd [of n] by simp
  then show ?thesis
    using False s decimal_value_nat_toString [of n] by (simp add: decimal_int_def)
qed

lemma digits_signed:
  "set ((if neg then ''-'' else []) @ nat_toString n) \<subseteq> set ''-0123456789''"
  using nat_toString_digits [of n] by (auto simp: subset_iff)

lemma nat_toString_example: "nat_toString 1700000000000000000 = ''1700000000000000000''"
  by (simp add: nat_toString.simps digit_def)


section \<open>The encoder\<close>

lemma field_entry_nonempty: "field_entry kv \<noteq> []"
  by (cases kv) (auto simp: field_entry_def Let_def split: field_value.splits)

lemma fields_line_eq_Nil: "fields_line p = [] \<longleftrightarrow> fields_rec p = []"
proof (cases "fields_rec p")
  case Nil
  then show ?thesis by (simp add: fields_line_def)
next
  case (Cons kv kvs)
  then show ?thesis
    by (simp add: fields_line_def field_entry_nonempty join_Cons_nonempty)
qed

lemma formatLineProtocol_Inr:
  "fields_rec p \<noteq> [] \<Longrightarrow>
   formatLineProtocol p = Inr (trim (measurementAndTags p @ '' '' @ fields_line p @ '' '' @ timestamp_line p))"
  by (simp add: formatLineProtocol_def fields_line_eq_Nil)

lemma formatLineProtocol_Inl:
  "fields_rec p = [] \<Longrightarrow>
   formatLineProtocol p = Inl (Error ''Data point must have at least one field'')"
  by (simp add: formatLineProtocol_def fields_line_eq_Nil)

lemma field_entry_text:
  "field_entry (k, v) = backslash_escaped {CHR '','', CHR ''='', CHR '' ''} k @ ''='' @ field_value_text v"
  by (simp add: field_entry_def field_value_text_def Let_def escapeTag_escaped
        escapeStringField_escaped split: field_value.splits)

lemma field_entry_fun:
  "field_entry = (\<lambda>(k, v). backslash_escaped {CHR '','', CHR ''='', CHR '' ''} k
                                  @ ''='' @ field_value_text v)"
  by (rule ext) (simp add: field_entry_text split: prod.splits)

lemma filter_field_entry: "filter (\<lambda>s. s \<noteq> []) (map field_entry kvs) = map field_entry kvs"
  by (induction kvs) (simp_all add: field_entry_nonempty)

lemma fields_line_text:
  "fields_line p = join '','' (map (\<lambda>(k, v). backslash_escaped {CHR '','', CHR ''='', CHR '' ''} k
                                  @ ''='' @ field_value_text v) (fields_rec p))"
  unfolding fields_line_def filter_field_entry
  by (simp only: field_entry_fun)

lemma measurementAndTags_text:
  "measurementAndTags p = backslash_escaped {CHR '','', CHR '' ''} (measurement p)
     @ concat (map (\<lambda>(k, v). '','' @ backslash_escaped {CHR '','', CHR ''='', CHR '' ''} k
                                  @ ''='' @ backslash_escaped {CHR '','', CHR ''='', CHR '' ''} v)
                   (tags p))"
proof (cases "tags p")
  case Nil
  then show ?thesis
    by (simp add: measurementAndTags_def tags_line_def escapeMeasurement_escaped)
next
  case (Cons kv kvs)
  let ?f = "\<lambda>(k, v). escapeTag k @ ''='' @ escapeTag v"
  have ne: "map ?f (tags p) \<noteq> []" using Cons by simp
  have "?f kv \<noteq> []" by (cases kv) simp
  then have "tags_line p \<noteq> []"
    using Cons by (simp add: tags_line_def join_Cons_nonempty)
  then have "measurementAndTags p = escapeMeasurement (measurement p) @ '','' @ tags_line p"
    by (simp add: measurementAndTags_def)
  also have "'','' @ tags_line p = concat (map (\<lambda>x. '','' @ x) (map ?f (tags p)))"
    unfolding tags_line_def using join_concat [OF ne, of "'',''"] .
  also have "map (\<lambda>x. '','' @ x) (map ?f (tags p)) =
     map (\<lambda>(k, v). '','' @ backslash_escaped {CHR '','', CHR ''='', CHR '' ''} k
                                  @ ''='' @ backslash_escaped {CHR '','', CHR ''='', CHR '' ''} v)
                   (tags p)"
    by (auto simp: escapeTag_escaped)
  finally show ?thesis by (simp add: escapeMeasurement_escaped)
qed

lemma field_entry_last: "\<not> isWhiteSpace (last (field_entry kv))"
proof (cases kv)
  case (Pair k v)
  show ?thesis
  proof (cases v)
    case (FString s)
    then show ?thesis using Pair
      by (simp add: field_entry_def Let_def isWhiteSpace_def dquote_def)
  next
    case (FBoolean b)
    then show ?thesis using Pair
      by (simp add: field_entry_def Let_def isWhiteSpace_def)
  next
    case (FNumber n)
    then show ?thesis using Pair number_toString_last [of n]
      by (simp add: field_entry_def Let_def)
  qed
qed

lemma fields_line_last:
  assumes "fields_rec p \<noteq> []"
  shows "fields_line p \<noteq> [] \<and> \<not> isWhiteSpace (last (fields_line p))"
proof -
  let ?xs = "map field_entry (fields_rec p)"
  have xs: "?xs \<noteq> []" "last ?xs \<noteq> []"
    using assms by (simp_all add: last_map field_entry_nonempty)
  have "last (last ?xs) = last (field_entry (last (fields_rec p)))"
    using assms by (simp add: last_map)
  then show ?thesis
    using join_last [OF xs, of "'',''"] field_entry_last
    by (simp add: fields_line_def filter_field_entry)
qed

lemma timestamp_line_last:
  assumes "timestamp p = Some d"
  shows "timestamp_line p \<noteq> [] \<and> \<not> isWhiteSpace (last (timestamp_line p))"
proof (cases "getTime d")
  case None
  then show ?thesis using assms by (simp add: timestamp_line_def isWhiteSpace_def)
next
  case (Some t)
  then show ?thesis
    using assms number_toString_last [of "t * 1000000"] by (simp add: timestamp_line_def)
qed

lemma formatLineProtocol_with_timestamp:
  assumes ne: "fields_rec p \<noteq> []" and ts: "timestamp p = Some d"
  shows "formatLineProtocol p =
        Inr (dropWhile isWhiteSpace (measurementAndTags p @ '' '' @ fields_line p)
             @ '' '' @ timestamp_line p)"
proof -
  let ?A = "measurementAndTags p @ '' '' @ fields_line p"
  let ?T = "timestamp_line p"
  let ?x = "?A @ '' '' @ ?T"
  have x: "?x \<noteq> []" "\<not> isWhiteSpace (last ?x)"
    using timestamp_line_last [OF ts] by simp_all
  have "?A \<noteq> [] \<and> \<not> isWhiteSpace (last ?A)"
    using fields_line_last [OF ne] by simp
  then have "\<exists>a\<in>set ?A. \<not> isWhiteSpace a" using last_in_set by blast
  then have "dropWhile isWhiteSpace (?A @ ('' '' @ ?T)) = dropWhile isWhiteSpace ?A @ ('' '' @ ?T)"
    by (rule dropWhile_append_keep)
  then have "dropWhile isWhiteSpace ?x = dropWhile isWhiteSpace ?A @ '' '' @ ?T"
    by simp
  then have "trim ?x = dropWhile isWhiteSpace ?A @ '' '' @ ?T"
    using trim_no_trailing [OF x] by simp
  then show ?thesis
    using formatLineProtocol_Inr [OF ne] by simp
qed

lemma timestamp_line_instant:
  assumes "timestamp p = Some (Instant ms)" and "\<bar>ms\<bar> < 10 ^ 15"
  shows "timestamp_line p = number_toString (ms * 1000000)"
  using assms by (simp add: timestamp_line_def getTime_def)

lemma formatLineProtocol_without_timestamp:
  assumes ne: "fields_rec p \<noteq> []" and ts: "timestamp p = None"
  shows "formatLineProtocol p =
        Inr (dropWhile isWhiteSpace (measurementAndTags p @ '' '' @ fields_line p))"
proof -
  let ?A = "measurementAndTags p @ '' '' @ fields_line p"
  have "?A \<noteq> [] \<and> \<not> isWhiteSpace (last ?A)"
    using fields_line_last [OF ne] by simp
  then have "trim (?A @ '' '') = dropWhile isWhiteSpace ?A"
    using trim_trailing_space [of ?A] by blast
  then show ?thesis
    using formatLineProtocol_Inr [OF ne] ts by (simp add: timestamp_line_def)
qed


text \<open>The definitions that unfold an encoding of a given point.\<close>

lemmas encoder_defs =
  formatLineProtocol_def fields_line_def field_entry_def tags_line_def measurementAndTags_def
  timestamp_line_def escapeTag_def escapeMeasurement_def escapeStringField_def replace_all_def
  trim_def isWhiteSpace_def backslash_def dquote_def Let_def escaped_line_def
  field_value_text_def


section \<open>The pieces of the client\<close>

lemma run_append:
  "run (es1 @ es2) c = (case run es1 c of None \<Rightarrow> None | Some c' \<Rightarrow> run es2 c')"
  by (induction es1 arbitrary: c) (auto split: option.splits)

lemma run_writes: "run (map WritePoint ps) c = Some (fold writePoint ps c)"
  by (induction ps arbitrary: c) auto

lemma writePoint_frame:
  "sending (writePoint p c) = sending c" "fetched (writePoint p c) = fetched c"
  "sent (writePoint p c) = sent c" "timerId (writePoint p c) = timerId c"
  "options (writePoint p c) = options c" "shutdown_returned (writePoint p c) = shutdown_returned c"
  "argument_limit (writePoint p c) = argument_limit c"
  by (auto simp: writePoint_def flush_call_def Let_def split: sum.splits)

lemma writePoint_buffer:
  "buffer (writePoint p c) = buffer c @ accepted [WritePoint p]"
  by (auto simp: writePoint_def flush_call_def Let_def split: sum.splits)

lemma accepted_append: "accepted (es1 @ es2) = accepted es1 @ accepted es2"
  by (induction es1 rule: accepted.induct) (auto split: sum.splits)

lemma fold_writePoint_frame:
  "sending (fold writePoint ps c) = sending c" "fetched (fold writePoint ps c) = fetched c"
  "sent (fold writePoint ps c) = sent c" "timerId (fold writePoint ps c) = timerId c"
  "options (fold writePoint ps c) = options c"
  "shutdown_returned (fold writePoint ps c) = shutdown_returned c"
  "argument_limit (fold writePoint ps c) = argument_limit c"
  by (induction ps arbitrary: c) (simp_all add: writePoint_frame)

lemma fold_writePoint_buffer:
  "buffer (fold writePoint ps c) = buffer c @ accepted (map WritePoint ps)"
proof (induction ps arbitrary: c)
  case Nil
  then show ?case by simp
next
  case (Cons p ps)
  have "accepted (map WritePoint (p # ps)) = accepted [WritePoint p] @ accepted (map WritePoint ps)"
    using accepted_append [of "[WritePoint p]" "map WritePoint ps"] by simp
  then show ?case using Cons by (simp add: writePoint_buffer)
qed

lemma accepted_writes_length:
  "\<forall>p\<in>set ps. fields_rec p \<noteq> [] \<Longrightarrow> length (accepted (map WritePoint ps)) = length ps"
  by (induction ps) (auto simp: formatLineProtocol_Inr)

lemma writePoint_mutex:
  assumes "fields_rec p \<noteq> []"
  shows "bufferMutex (writePoint p c) =
           (if int (length (buffer c)) + 1 \<ge> batchSize (options c)
            then bufferMutex c @ [Threshold] else bufferMutex c)"
  using assms by (auto simp: writePoint_def formatLineProtocol_Inr flush_call_def Let_def)

lemma fold_writePoint_mutex:
  assumes "\<forall>p\<in>set ps. fields_rec p \<noteq> []"
  shows "bufferMutex (fold writePoint ps c) =
           bufferMutex c @ replicate (min (length ps)
              (nat (int (length (buffer c) + length ps) + 1 - batchSize (options c)))) Threshold"
  using assms
proof (induction ps rule: rev_induct)
  case Nil
  then show ?case by simp
next
  case (snoc p ps)
  let ?c = "fold writePoint ps c"
  have len: "length (buffer ?c) = length (buffer c) + length ps"
    using snoc.prems by (simp add: fold_writePoint_buffer accepted_writes_length)
  have mut: "bufferMutex ?c = bufferMutex c @ replicate (min (length ps)
              (nat (int (length (buffer c) + length ps) + 1 - batchSize (options c)))) Threshold"
    using snoc by simp
  have p: "fields_rec p \<noteq> []" using snoc.prems by simp
  define k where "k = min (length ps)
              (nat (int (length (buffer c) + length ps) + 1 - batchSize (options c)))"
  define k' where "k' = min (length (ps @ [p]))
              (nat (int (length (buffer c) + length (ps @ [p])) + 1 - batchSize (options c)))"
  have w: "bufferMutex (fold writePoint (ps @ [p]) c) =
             (if int (length (buffer c) + length ps) + 1 \<ge> batchSize (options c)
              then bufferMutex ?c @ [Threshold] else bufferMutex ?c)"
    using p len by (simp add: writePoint_mutex fold_writePoint_frame)
  show ?case
  proof (cases "int (length (buffer c) + length ps) + 1 \<ge> batchSize (options c)")
    case True
    then have "k' = Suc k" unfolding k_def k'_def by auto
    moreover have "replicate k Threshold @ [Threshold] = replicate (Suc k) Threshold"
      by (simp add: replicate_append_same)
    ultimately have "bufferMutex c @ replicate k Threshold @ [Threshold]
                   = bufferMutex c @ replicate k' Threshold"
      by simp
    then show ?thesis using True w mut unfolding k_def k'_def by simp
  next
    case False
    then have "k' = 0" and "k = 0" unfolding k_def k'_def by auto
    then show ?thesis using False w mut unfolding k_def k'_def by simp
  qed
qed

lemma flush_enter_drains:
  assumes "sending c = None" and "bufferMutex c = who # waiting" and "buffer c \<noteq> []"
  shows "flush_enter c = Some (c\<lparr>bufferMutex := waiting, buffer := [],
            sending := Some (who, buffer c),
            fetched := fetched c @ [send_request (options c) (buffer c)]\<rparr>)"
  using assms by (simp add: flush_enter_def Let_def)

lemma flush_enter_empty:
  assumes "sending c = None" and "bufferMutex c = who # waiting" and "buffer c = []"
  shows "flush_enter c = Some (resolve who (c\<lparr>bufferMutex := waiting\<rparr>))"
  using assms by (simp add: flush_enter_def)

lemma resolve_frame:
  "buffer (resolve who c) = buffer c" "sending (resolve who c) = sending c"
  "sent (resolve who c) = sent c" "timerId (resolve who c) = timerId c"
  "bufferMutex (resolve who c) = bufferMutex c" "options (resolve who c) = options c"
  "fetched (resolve who c) = fetched c" "console (resolve who c) = console c"
  "argument_limit (resolve who c) = argument_limit c"
  by (simp_all add: resolve_def)

lemma reject_frame:
  "buffer (reject who e c) = buffer c" "sending (reject who e c) = sending c"
  "sent (reject who e c) = sent c" "timerId (reject who e c) = timerId c"
  "bufferMutex (reject who e c) = bufferMutex c" "options (reject who e c) = options c"
  "fetched (reject who e c) = fetched c"
  "shutdown_returned (reject who e c) = shutdown_returned c"
  "argument_limit (reject who e c) = argument_limit c"
  by (simp_all add: reject_def)

lemma flush_resume_failure:
  assumes "sending c = Some (who, dataToSend)" and "send_settle r = Inl e"
    and "length dataToSend \<le> argument_limit c"
  shows "flush_resume r c = Some (resolve who (c\<lparr>sending := None,
            console := console c @ [FlushFailed e], buffer := dataToSend @ buffer c\<rparr>))"
  using assms by (simp add: flush_resume_def Let_def)

lemma flush_resume_overflow:
  assumes "sending c = Some (who, dataToSend)" and "send_settle r = Inl e"
    and "length dataToSend > argument_limit c"
  shows "flush_resume r c = Some (reject who RangeError (c\<lparr>sending := None,
            console := console c @ [FlushFailed e]\<rparr>))"
  using assms by (simp add: flush_resume_def Let_def)


lemma flush_failure_requeues_within_limit:
  assumes free: "sending c = None" and waiting: "bufferMutex c \<noteq> []"
    and nonempty: "buffer c \<noteq> []" and failure: "send_settle r = Inl e"
    and within: "length (buffer c) \<le> argument_limit c"
  shows "\<exists>c1 c2 c3.
           run [Enter] c = Some c1 \<and> snapshot c1 = buffer c \<and> buffer c1 = []
         \<and> run (map WritePoint during @ [Settle r]) c1 = Some c2
         \<and> sending c2 = None
         \<and> buffer c2 = buffer c @ accepted (map WritePoint during)
         \<and> run (map WritePoint between @ [FlushCall, Enter]) c2 = Some c3
         \<and> snapshot c3 = buffer c @ accepted (map WritePoint during)
                            @ accepted (map WritePoint between)
         \<and> buffer c3 = [] \<and> sent c3 = sent c"
proof -
  obtain who ws where ws: "bufferMutex c = who # ws"
    using waiting by (cases "bufferMutex c") auto
  define c1 where "c1 = c\<lparr>bufferMutex := ws, buffer := [],
            sending := Some (who, buffer c),
            fetched := fetched c @ [send_request (options c) (buffer c)]\<rparr>"
  have e1: "run [Enter] c = Some c1"
    using flush_enter_drains [OF free ws nonempty] by (simp add: c1_def)
  have s1: "snapshot c1 = buffer c" "buffer c1 = []" "sent c1 = sent c"
    by (simp_all add: c1_def snapshot_def)
  define d where "d = fold writePoint during c1"
  have d: "sending d = Some (who, buffer c)" "buffer d = accepted (map WritePoint during)"
    "sent d = sent c" "length (buffer c) \<le> argument_limit d"
    using within by (simp_all add: d_def fold_writePoint_frame fold_writePoint_buffer c1_def)
  define c2 where "c2 = resolve who (d\<lparr>sending := None,
            console := console d @ [FlushFailed e], buffer := buffer c @ buffer d\<rparr>)"
  have e2: "run (map WritePoint during @ [Settle r]) c1 = Some c2"
    using flush_resume_failure [OF d(1) failure d(4)]
    by (simp add: run_append run_writes d_def [symmetric] c2_def)
  have s2: "sending c2 = None" "buffer c2 = buffer c @ accepted (map WritePoint during)"
    "sent c2 = sent c"
    by (simp_all add: c2_def resolve_frame d)
  define b where "b = flush_call Manual (fold writePoint between c2)"
  have b: "sending b = None"
    "buffer b = buffer c @ accepted (map WritePoint during) @ accepted (map WritePoint between)"
    "sent b = sent c" "bufferMutex b \<noteq> []"
    by (simp_all add: b_def flush_call_def fold_writePoint_frame fold_writePoint_buffer s2)
  obtain who' ws' where ws': "bufferMutex b = who' # ws'"
    using b(4) by (cases "bufferMutex b") auto
  have bne: "buffer b \<noteq> []" using b(2) nonempty by simp
  define c3 where "c3 = b\<lparr>bufferMutex := ws', buffer := [],
            sending := Some (who', buffer b),
            fetched := fetched b @ [send_request (options b) (buffer b)]\<rparr>"
  have e3: "run (map WritePoint between @ [FlushCall, Enter]) c2 = Some c3"
    using flush_enter_drains [OF b(1) ws' bne]
    by (simp add: run_append run_writes b_def [symmetric] c3_def)
  have s3: "snapshot c3 = buffer c @ accepted (map WritePoint during)
                            @ accepted (map WritePoint between)"
    "buffer c3 = []" "sent c3 = sent c"
    by (simp_all add: c3_def snapshot_def b)
  show ?thesis using e1 s1 e2 s2 e3 s3 by blast
qed

lemma writePoint_before_or_after_enter:
  assumes free: "sending c = None" and waiting: "bufferMutex c \<noteq> []"
    and line: "formatLineProtocol p = Inr line"
  shows "(\<exists>c1. run [WritePoint p, Enter] c = Some c1
            \<and> snapshot c1 = buffer c @ [line] \<and> buffer c1 = [])
    \<and> (\<exists>c2. run [Enter, WritePoint p] c = Some c2
            \<and> snapshot c2 = buffer c \<and> buffer c2 = [line])"
proof
  let ?w = "writePoint p c"
  have w: "sending ?w = None" "buffer ?w = buffer c @ [line]" "buffer ?w \<noteq> []"
    using free line by (simp_all add: writePoint_frame writePoint_buffer)
  have "bufferMutex ?w \<noteq> []"
    using waiting by (auto simp: writePoint_def flush_call_def Let_def split: sum.splits)
  then obtain who ws where ws: "bufferMutex ?w = who # ws"
    by (cases "bufferMutex ?w") auto
  show "\<exists>c1. run [WritePoint p, Enter] c = Some c1
            \<and> snapshot c1 = buffer c @ [line] \<and> buffer c1 = []"
    using flush_enter_drains [OF w(1) ws w(3)] w(2) by (simp add: snapshot_def)
next
  obtain who ws where ws: "bufferMutex c = who # ws"
    using waiting by (cases "bufferMutex c") auto
  show "\<exists>c2. run [Enter, WritePoint p] c = Some c2
            \<and> snapshot c2 = buffer c \<and> buffer c2 = [line]"
  proof (cases "buffer c = []")
    case True
    show ?thesis
      using flush_enter_empty [OF free ws True] True free line
      by (simp add: writePoint_frame writePoint_buffer resolve_frame snapshot_def)
  next
    case False
    show ?thesis
      using flush_enter_drains [OF free ws False] line
      by (simp add: writePoint_frame writePoint_buffer snapshot_def)
  qed
qed






section \<open>The retry of a failed flush\<close>

text \<open>
  C1. After a failed send every line of the snapshot should be back at the front of the
  buffer. The code puts the snapshot back with one spread call, and for a snapshot with
  more lines than the engine accepts arguments that call throws: a flush drains such a
  buffer, its send fails, and afterwards the buffer holds only the lines that
  \<^verbatim>\<open>writePoint\<close> appended during the send; no line of the snapshot is in the buffer, none
  was sent, and no flush is left in the mutex that could still put them back. (For a
  snapshot within the limit the lines are put back as claimed,
  \<open>flush_failure_requeues_within_limit\<close>.)
\<close>

theorem flush_failure_drops_large_snapshot:
  assumes free: "sending c = None" and waiting: "bufferMutex c \<noteq> []"
    and large: "length (buffer c) > argument_limit c" and failure: "send_settle r = Inl e"
  shows "\<exists>c1 c2.
           run [Enter] c = Some c1 \<and> snapshot c1 = buffer c \<and> buffer c1 = []
         \<and> run (map WritePoint during @ [Settle r]) c1 = Some c2
         \<and> sending c2 = None
         \<and> buffer c2 = accepted (map WritePoint during)
         \<and> sent c2 = sent c"
proof -
  obtain who ws where ws: "bufferMutex c = who # ws"
    using waiting by (cases "bufferMutex c") auto
  have nonempty: "buffer c \<noteq> []" using large by auto
  define c1 where "c1 = c\<lparr>bufferMutex := ws, buffer := [],
            sending := Some (who, buffer c),
            fetched := fetched c @ [send_request (options c) (buffer c)]\<rparr>"
  have e1: "run [Enter] c = Some c1"
    using flush_enter_drains [OF free ws nonempty] by (simp add: c1_def)
  have s1: "snapshot c1 = buffer c" "buffer c1 = []"
    by (simp_all add: c1_def snapshot_def)
  define d where "d = fold writePoint during c1"
  have d: "sending d = Some (who, buffer c)" "buffer d = accepted (map WritePoint during)"
    "sent d = sent c" "length (buffer c) > argument_limit d"
    using large by (simp_all add: d_def fold_writePoint_frame fold_writePoint_buffer c1_def)
  define c2 where "c2 = reject who RangeError (d\<lparr>sending := None,
            console := console d @ [FlushFailed e]\<rparr>)"
  have e2: "run (map WritePoint during @ [Settle r]) c1 = Some c2"
    using flush_resume_overflow [OF d(1) failure d(4)]
    by (simp add: run_append run_writes d_def [symmetric] c2_def)
  have s2: "sending c2 = None" "buffer c2 = accepted (map WritePoint during)"
    "sent c2 = sent c"
    by (simp_all add: c2_def reject_frame d)
  show ?thesis using e1 s1 e2 s2 by blast
qed

theorem flush_failure_drops_large_snapshot_witness:
  "sending ((constructor 125000 \<lparr>opt_url = ''http://vm'', opt_auth = None,
               opt_batchSize = None, opt_flushInterval = None\<rparr>)\<lparr>buffer := replicate 130000 ''m v=1'',
               bufferMutex := [Timer]\<rparr>) = None
   \<and> argument_limit ((constructor 125000 \<lparr>opt_url = ''http://vm'', opt_auth = None,
               opt_batchSize = None, opt_flushInterval = None\<rparr>)\<lparr>buffer := replicate 130000 ''m v=1'',
               bufferMutex := [Timer]\<rparr>) < length (replicate 130000 ''m v=1'')
   \<and> send_settle (Response 503 ''busy'') = Inl (Error ''[VMClient] Server responded with status 503: busy'')
   \<and> (\<exists>c1 c2.
         run [Enter] ((constructor 125000 \<lparr>opt_url = ''http://vm'', opt_auth = None,
               opt_batchSize = None, opt_flushInterval = None\<rparr>)\<lparr>buffer := replicate 130000 ''m v=1'',
               bufferMutex := [Timer]\<rparr>) = Some c1
       \<and> snapshot c1 = replicate 130000 ''m v=1'' \<and> buffer c1 = []
       \<and> run ([WritePoint \<lparr>measurement = ''d'', tags = [], fields_rec = [(''v'', FNumber 4)], timestamp = None\<rparr>]
                 @ [Settle (Response 503 ''busy'')]) c1 = Some c2
       \<and> sending c2 = None \<and> buffer c2 = [''d v=4''] \<and> sent c2 = [])"
proof -
  let ?c = "(constructor 125000 \<lparr>opt_url = ''http://vm'', opt_auth = None,
               opt_batchSize = None, opt_flushInterval = None\<rparr>)\<lparr>buffer := replicate 130000 ''m v=1'',
               bufferMutex := [Timer]\<rparr>"
  let ?p = "\<lparr>measurement = ''d'', tags = [], fields_rec = [(''v'', FNumber 4)], timestamp = None\<rparr>"
  have h: "sending ?c = None" "bufferMutex ?c \<noteq> []" "length (buffer ?c) > argument_limit ?c"
    by (simp_all add: constructor_def)
  have n: "number_toString 503 = ''503''"
    by (simp add: number_toString_small nat_toString.simps digit_def)
  have f: "send_settle (Response 503 ''busy'') = Inl (Error ''[VMClient] Server responded with status 503: busy'')"
    by (simp add: send_settle_def n)
  have b: "buffer ?c = replicate 130000 ''m v=1''" "sent ?c = []"
    by (simp_all add: constructor_def)
  have acc: "accepted (map WritePoint [?p]) = [''d v=4'']"
    by (simp add: encoder_defs number_toString_small nat_toString.simps digit_def)
  from flush_failure_drops_large_snapshot [OF h f, of "[?p]"]
  obtain c1 c2 where
    "run [Enter] ?c = Some c1" "snapshot c1 = buffer ?c" "buffer c1 = []"
    "run (map WritePoint [?p] @ [Settle (Response 503 ''busy'')]) c1 = Some c2"
    "sending c2 = None" "buffer c2 = accepted (map WritePoint [?p])" "sent c2 = sent ?c"
    by blast
  then have "run [Enter] ?c = Some c1 \<and> snapshot c1 = replicate 130000 ''m v=1'' \<and> buffer c1 = []
       \<and> run ([WritePoint ?p] @ [Settle (Response 503 ''busy'')]) c1 = Some c2
       \<and> sending c2 = None \<and> buffer c2 = [''d v=4''] \<and> sent c2 = []"
    unfolding acc b by simp
  moreover have "argument_limit ?c < length (replicate 130000 ''m v=1'')"
    by (simp add: constructor_def)
  ultimately show ?thesis using h(1) f by blast
qed


section \<open>Escaping\<close>

text \<open>
  C2, as amended. For every point with at least one field the encoded line is the line of
  the output shape in which each comma and each space of the measurement name (not the
  equals sign), and each comma, equals sign and space of every tag key and tag value, is
  preceded by a backslash; in a string field value each backslash and each double quote is
  preceded by a backslash.
\<close>

theorem formatLineProtocol_escaping:
  assumes "fields_rec p \<noteq> []"
  shows "formatLineProtocol p = Inr (escaped_line {CHR '','', CHR '' ''} p)"
proof -
  have "escaped_line {CHR '','', CHR '' ''} p
      = trim (measurementAndTags p @ '' '' @ fields_line p @ '' '' @ timestamp_line p)"
    unfolding escaped_line_def measurementAndTags_text fields_line_text [symmetric] by simp
  then show ?thesis using formatLineProtocol_Inr [OF assms] by simp
qed

theorem formatLineProtocol_escaping_witness:
  \<open>fields_rec \<lparr>measurement = ''cpu load'', tags = [(''host name'', ''a=b,c'')],
      fields_rec = [(''msg'', FString [CHR ''a'', dquote, backslash])],
      timestamp = None\<rparr> \<noteq> []
   \<and> formatLineProtocol \<lparr>measurement = ''cpu load'', tags = [(''host name'', ''a=b,c'')],
      fields_rec = [(''msg'', FString [CHR ''a'', dquote, backslash])],
      timestamp = None\<rparr>
     = Inr ([CHR ''c'', CHR ''p'', CHR ''u'', backslash, CHR '' '', CHR ''l'', CHR ''o'', CHR ''a'', CHR ''d'', CHR '','']
            @ ''host'' @ [backslash] @ '' name=a'' @ [backslash] @ ''=b'' @ [backslash] @ '',c msg=''
            @ [dquote, CHR ''a'', backslash, dquote, backslash, backslash, dquote])\<close>
proof -
  have h: "fields_rec \<lparr>measurement = ''cpu load'', tags = [(''host name'', ''a=b,c'')],
      fields_rec = [(''msg'', FString [CHR ''a'', dquote, backslash])],
      timestamp = None\<rparr> \<noteq> []" by simp
  have e: \<open>escaped_line {CHR '','', CHR '' ''} \<lparr>measurement = ''cpu load'', tags = [(''host name'', ''a=b,c'')],
      fields_rec = [(''msg'', FString [CHR ''a'', dquote, backslash])],
      timestamp = None\<rparr> = ([CHR ''c'', CHR ''p'', CHR ''u'', backslash, CHR '' '', CHR ''l'', CHR ''o'', CHR ''a'', CHR ''d'', CHR '','']
            @ ''host'' @ [backslash] @ '' name=a'' @ [backslash] @ ''=b'' @ [backslash] @ '',c msg=''
            @ [dquote, CHR ''a'', backslash, dquote, backslash, backslash, dquote])\<close>
    by (simp add: encoder_defs number_toString_small nat_toString.simps digit_def)
  show ?thesis using h formatLineProtocol_escaping [OF h] e by simp
qed

text \<open>
  As the claim was stated, with the equals sign escaped in the measurement name as well, it
  fails: the measurement \<open>a=b\<close> is encoded unchanged.
\<close>

theorem measurement_equals_counterexample:
  \<open>formatLineProtocol \<lparr>measurement = ''a=b'', tags = [], fields_rec = [(''f'', FNumber 1)],
      timestamp = None\<rparr> = Inr ''a=b f=1''
   \<and> escaped_line {CHR '','', CHR ''='', CHR '' ''}
        \<lparr>measurement = ''a=b'', tags = [], fields_rec = [(''f'', FNumber 1)], timestamp = None\<rparr>
       = [CHR ''a'', backslash, CHR ''='', CHR ''b''] @ '' f=1''
   \<and> formatLineProtocol \<lparr>measurement = ''a=b'', tags = [], fields_rec = [(''f'', FNumber 1)],
      timestamp = None\<rparr>
     \<noteq> Inr (escaped_line {CHR '','', CHR ''='', CHR '' ''}
        \<lparr>measurement = ''a=b'', tags = [], fields_rec = [(''f'', FNumber 1)], timestamp = None\<rparr>)\<close>
  by (simp add: encoder_defs number_toString_small nat_toString.simps digit_def)


section \<open>A write that races a flush\<close>

text \<open>
  C3. No line should ever be lost. Where the line of a \<^verbatim>\<open>writePoint\<close> that races a flush
  lands is as claimed (\<open>writePoint_before_or_after_enter\<close>: in the snapshot when the call
  comes before the flush enters, in the buffer when it comes after). But a line that landed
  in the snapshot is lost with it when the send fails and the snapshot has more lines than
  the engine accepts arguments: after the write, the flush and the failed send the buffer
  is empty, there is no snapshot, nothing was sent, and the lines held are no longer the
  lines held before together with the line encoded.
\<close>

theorem writePoint_line_lost_with_large_snapshot:
  assumes free: "sending c = None" and waiting: "bufferMutex c \<noteq> []"
    and line: "formatLineProtocol p = Inr line"
    and large: "length (buffer c) \<ge> argument_limit c" and failure: "send_settle r = Inl e"
  shows "\<exists>c'. run [WritePoint p, Enter, Settle r] c = Some c'
           \<and> buffer c' = [] \<and> snapshot c' = [] \<and> sent c' = sent c
           \<and> mset (concat (sent c')) + mset (snapshot c') + mset (buffer c')
               \<noteq> mset (concat (sent c)) + mset (snapshot c) + mset (buffer c)
                   + mset (accepted [WritePoint p, Enter, Settle r])"
proof -
  let ?w = "writePoint p c"
  have w: "sending ?w = None" "buffer ?w = buffer c @ [line]" "buffer ?w \<noteq> []"
    "sent ?w = sent c" "argument_limit ?w = argument_limit c"
    using free line by (simp_all add: writePoint_frame writePoint_buffer)
  have "bufferMutex ?w \<noteq> []"
    using waiting by (auto simp: writePoint_def flush_call_def Let_def split: sum.splits)
  then obtain who ws where ws: "bufferMutex ?w = who # ws"
    by (cases "bufferMutex ?w") auto
  define c1 where "c1 = ?w\<lparr>bufferMutex := ws, buffer := [],
            sending := Some (who, buffer ?w),
            fetched := fetched ?w @ [send_request (options ?w) (buffer ?w)]\<rparr>"
  have e1: "run [WritePoint p, Enter] c = Some c1"
    using flush_enter_drains [OF w(1) ws w(3)] by (simp add: c1_def)
  have s1: "sending c1 = Some (who, buffer ?w)" "buffer c1 = []" "sent c1 = sent c"
    "length (buffer ?w) > argument_limit c1"
    using large w by (simp_all add: c1_def)
  define c' where "c' = reject who RangeError (c1\<lparr>sending := None,
            console := console c1 @ [FlushFailed e]\<rparr>)"
  have "run [Settle r] c1 = Some c'"
    using flush_resume_overflow [OF s1(1) failure s1(4)] by (simp add: c'_def)
  then have e: "run [WritePoint p, Enter, Settle r] c = Some c'"
    using e1 run_append [of "[WritePoint p, Enter]" "[Settle r]" c] by simp
  have s': "buffer c' = []" "snapshot c' = []" "sent c' = sent c"
    using s1 by (simp_all add: c'_def reject_frame snapshot_def)
  have acc: "accepted [WritePoint p, Enter, Settle r] = [line]"
    using line by simp
  have "snapshot c = []" using free by (simp add: snapshot_def)
  then have "size (mset (concat (sent c)) + mset (snapshot c) + mset (buffer c)
                   + mset (accepted [WritePoint p, Enter, Settle r]))
           > size (mset (concat (sent c')) + mset (snapshot c') + mset (buffer c'))"
    unfolding acc s' by simp
  then have "mset (concat (sent c')) + mset (snapshot c') + mset (buffer c')
               \<noteq> mset (concat (sent c)) + mset (snapshot c) + mset (buffer c)
                   + mset (accepted [WritePoint p, Enter, Settle r])"
    by (metis less_irrefl)
  then show ?thesis using e s' by blast
qed

theorem writePoint_line_lost_with_large_snapshot_witness:
  "sending ((constructor 125000 \<lparr>opt_url = ''http://vm'', opt_auth = None,
               opt_batchSize = None, opt_flushInterval = None\<rparr>)\<lparr>buffer := replicate 129999 ''m v=1'',
               bufferMutex := [Timer]\<rparr>) = None
   \<and> formatLineProtocol \<lparr>measurement = ''c'', tags = [], fields_rec = [(''v'', FNumber 3)],
         timestamp = None\<rparr> = Inr ''c v=3''
   \<and> argument_limit ((constructor 125000 \<lparr>opt_url = ''http://vm'', opt_auth = None,
               opt_batchSize = None, opt_flushInterval = None\<rparr>)\<lparr>buffer := replicate 129999 ''m v=1'',
               bufferMutex := [Timer]\<rparr>) \<le> length (replicate 129999 ''m v=1'')
   \<and> send_settle (Rejected (Error ''fetch failed'')) = Inl (Error ''fetch failed'')
   \<and> (\<exists>c'. run [WritePoint \<lparr>measurement = ''c'', tags = [], fields_rec = [(''v'', FNumber 3)],
                    timestamp = None\<rparr>, Enter, Settle (Rejected (Error ''fetch failed''))]
               ((constructor 125000 \<lparr>opt_url = ''http://vm'', opt_auth = None,
                   opt_batchSize = None, opt_flushInterval = None\<rparr>)\<lparr>buffer := replicate 129999 ''m v=1'',
                   bufferMutex := [Timer]\<rparr>) = Some c'
           \<and> buffer c' = [] \<and> snapshot c' = [] \<and> sent c' = [])"
proof -
  let ?c = "(constructor 125000 \<lparr>opt_url = ''http://vm'', opt_auth = None,
               opt_batchSize = None, opt_flushInterval = None\<rparr>)\<lparr>buffer := replicate 129999 ''m v=1'',
               bufferMutex := [Timer]\<rparr>"
  let ?p = "\<lparr>measurement = ''c'', tags = [], fields_rec = [(''v'', FNumber 3)], timestamp = None\<rparr>"
  let ?r = "Rejected (Error ''fetch failed'')"
  have h: "sending ?c = None" "bufferMutex ?c \<noteq> []"
    by (simp_all add: constructor_def)
  have g: "argument_limit ?c \<le> length (buffer ?c)" "sent ?c = []"
    "argument_limit ?c \<le> length (replicate 129999 ''m v=1'')"
    by (simp_all add: constructor_def)
  have l: "formatLineProtocol ?p = Inr ''c v=3''"
    by (simp add: encoder_defs number_toString_small nat_toString.simps digit_def)
  have f: "send_settle ?r = Inl (Error ''fetch failed'')" by (simp add: send_settle_def)
  from writePoint_line_lost_with_large_snapshot [OF h l g(1) f]
  obtain c' where "run [WritePoint ?p, Enter, Settle ?r] ?c = Some c'"
    "buffer c' = []" "snapshot c' = []" "sent c' = sent ?c"
    by blast
  then have "\<exists>c'. run [WritePoint ?p, Enter, Settle ?r] ?c = Some c'
           \<and> buffer c' = [] \<and> snapshot c' = [] \<and> sent c' = []"
    unfolding g(2) by blast
  then show ?thesis using h(1) l g(3) f by blast
qed


section \<open>The threshold\<close>

text \<open>
  C4. With a batch size of at least one and an empty buffer, \<open>batchSize\<close> calls of
  \<^verbatim>\<open>writePoint\<close> with points that have fields, with no flush entering in between, leave
  exactly one call of \<^verbatim>\<open>flush()\<close> waiting that was not there before, the one of the
  threshold; fewer calls leave none. No call issues a request, completes a send or changes
  the flush in the mutex: \<^verbatim>\<open>writePoint\<close> returns without network traffic and without
  the flush having run.
\<close>

theorem writePoint_threshold:
  assumes "buffer c = []" and "1 \<le> batchSize (options c)" and "\<forall>p\<in>set ps. fields_rec p \<noteq> []"
  shows "(int (length ps) = batchSize (options c) \<longrightarrow>
            bufferMutex (fold writePoint ps c) = bufferMutex c @ [Threshold])
       \<and> (int (length ps) < batchSize (options c) \<longrightarrow>
            bufferMutex (fold writePoint ps c) = bufferMutex c)
       \<and> sending (fold writePoint ps c) = sending c
       \<and> fetched (fold writePoint ps c) = fetched c
       \<and> sent (fold writePoint ps c) = sent c"
  using assms fold_writePoint_mutex [of ps c]
  by (auto simp: fold_writePoint_frame)

theorem writePoint_threshold_witness:
  "buffer (constructor 125000 \<lparr>opt_url = ''http://vm'', opt_auth = None, opt_batchSize = Some 2,
                        opt_flushInterval = None\<rparr>) = []
   \<and> 1 \<le> batchSize (options (constructor 125000 \<lparr>opt_url = ''http://vm'', opt_auth = None,
                        opt_batchSize = Some 2, opt_flushInterval = None\<rparr>))
   \<and> bufferMutex (fold writePoint
        [\<lparr>measurement = ''m'', tags = [], fields_rec = [(''v'', FNumber 1)], timestamp = None\<rparr>,
         \<lparr>measurement = ''m'', tags = [], fields_rec = [(''v'', FNumber 2)], timestamp = None\<rparr>]
        (constructor 125000 \<lparr>opt_url = ''http://vm'', opt_auth = None, opt_batchSize = Some 2,
                        opt_flushInterval = None\<rparr>)) = [Threshold]
   \<and> bufferMutex (fold writePoint
        [\<lparr>measurement = ''m'', tags = [], fields_rec = [(''v'', FNumber 1)], timestamp = None\<rparr>]
        (constructor 125000 \<lparr>opt_url = ''http://vm'', opt_auth = None, opt_batchSize = Some 2,
                        opt_flushInterval = None\<rparr>)) = []"
proof -
  let ?c = "constructor 125000 \<lparr>opt_url = ''http://vm'', opt_auth = None, opt_batchSize = Some 2,
                        opt_flushInterval = None\<rparr>"
  let ?p1 = "\<lparr>measurement = ''m'', tags = [], fields_rec = [(''v'', FNumber 1)], timestamp = None\<rparr>"
  let ?p2 = "\<lparr>measurement = ''m'', tags = [], fields_rec = [(''v'', FNumber 2)], timestamp = None\<rparr>"
  have h: "buffer ?c = []" "1 \<le> batchSize (options ?c)" "bufferMutex ?c = []"
    "batchSize (options ?c) = 2"
    by (simp_all add: constructor_def)
  have a: "\<forall>p\<in>set [?p1, ?p2]. fields_rec p \<noteq> []" and b: "\<forall>p\<in>set [?p1]. fields_rec p \<noteq> []"
    by simp_all
  show ?thesis
    using writePoint_threshold [OF h(1) h(2) a] writePoint_threshold [OF h(1) h(2) b] h
    by simp
qed


section \<open>A point without fields\<close>

text \<open>
  C5. For a point whose fields are empty the encoder fails with the error
  \<open>Data point must have at least one field\<close>; \<^verbatim>\<open>writePoint\<close> reports it on the console
  and changes nothing else: the buffer is as before, no flush is called, and the call
  returns a client, not an error.
\<close>

theorem writePoint_no_fields:
  assumes "fields_rec p = []"
  shows "formatLineProtocol p = Inl (Error ''Data point must have at least one field'')
       \<and> writePoint p c =
           c\<lparr>console := console c
                  @ [FormatFailed (Error ''Data point must have at least one field'')]\<rparr>
       \<and> buffer (writePoint p c) = buffer c
       \<and> bufferMutex (writePoint p c) = bufferMutex c
       \<and> sending (writePoint p c) = sending c"
proof -
  have f: "formatLineProtocol p = Inl (Error ''Data point must have at least one field'')"
    using assms by (rule formatLineProtocol_Inl)
  then show ?thesis by (simp add: writePoint_def)
qed

theorem writePoint_no_fields_witness:
  "fields_rec \<lparr>measurement = ''cpu'', tags = [(''host'', ''a'')], fields_rec = [], timestamp = None\<rparr> = []
   \<and> buffer (writePoint \<lparr>measurement = ''cpu'', tags = [(''host'', ''a'')], fields_rec = [], timestamp = None\<rparr>
        ((constructor 125000 \<lparr>opt_url = ''http://vm'', opt_auth = None, opt_batchSize = Some 1,
                        opt_flushInterval = None\<rparr>)\<lparr>buffer := [''m v=1'']\<rparr>)) = [''m v=1'']
   \<and> bufferMutex (writePoint \<lparr>measurement = ''cpu'', tags = [(''host'', ''a'')], fields_rec = [], timestamp = None\<rparr>
        ((constructor 125000 \<lparr>opt_url = ''http://vm'', opt_auth = None, opt_batchSize = Some 1,
                        opt_flushInterval = None\<rparr>)\<lparr>buffer := [''m v=1'']\<rparr>)) = []
   \<and> console (writePoint \<lparr>measurement = ''cpu'', tags = [(''host'', ''a'')], fields_rec = [], timestamp = None\<rparr>
        ((constructor 125000 \<lparr>opt_url = ''http://vm'', opt_auth = None, opt_batchSize = Some 1,
                        opt_flushInterval = None\<rparr>)\<lparr>buffer := [''m v=1'']\<rparr>))
       = [FormatFailed (Error ''Data point must have at least one field'')]"
  using writePoint_no_fields [of
      "\<lparr>measurement = ''cpu'', tags = [(''host'', ''a'')], fields_rec = [], timestamp = None\<rparr>"
      "(constructor 125000 \<lparr>opt_url = ''http://vm'', opt_auth = None, opt_batchSize = Some 1,
                        opt_flushInterval = None\<rparr>)\<lparr>buffer := [''m v=1'']\<rparr>"]
  by (simp add: constructor_def)


section \<open>Shutdown\<close>




section \<open>The request of a send\<close>

text \<open>
  C7. For every list of lines the body of the request of \<^verbatim>\<open>send\<close> is the lines joined
  with newlines; the request has the header \<open>Authorization: Bearer <token>\<close> exactly when
  a bearer token (a non-empty string) is configured; \<^verbatim>\<open>send\<close> returns exactly when the
  status of the response is 204; for every other status it throws an error whose message
  ends with the text of the response body, and a rejected \<^verbatim>\<open>fetch\<close> makes it throw too.
\<close>

theorem send_contract:
  "req_body (send_request opts points) = join [CHR 0x0A] points
   \<and> ((''Authorization'', v) \<in> set (req_headers (send_request opts points))
        \<longleftrightarrow> (\<exists>bearer. auth opts = Some bearer \<and> bearer \<noteq> [] \<and> v = ''Bearer '' @ bearer))
   \<and> (send_settle (Response status text) = Inr () \<longleftrightarrow> status = 204)
   \<and> (status \<noteq> 204 \<longrightarrow>
        send_settle (Response status text) =
          Inl (Error (''[VMClient] Server responded with status '' @ number_toString status
                      @ '': '' @ text)))
   \<and> send_settle (Rejected e) = Inl e"
  by (auto simp: send_request_def send_settle_def Let_def split: option.splits)

theorem send_contract_witness:
  "req_body (send_request \<lparr>url = ''http://vm'', auth = Some ''tok'', batchSize = 2, flushInterval = 5000\<rparr>
               [''a v=1'', ''b v=2'']) = ''a v=1'' @ [CHR 0x0A] @ ''b v=2''
   \<and> (''Authorization'', ''Bearer tok'') \<in> set (req_headers (send_request
         \<lparr>url = ''http://vm'', auth = Some ''tok'', batchSize = 2, flushInterval = 5000\<rparr>
               [''a v=1'', ''b v=2'']))
   \<and> (500::int) \<noteq> 204
   \<and> send_settle (Response 500 ''boom'') \<noteq> Inr ()
   \<and> send_settle (Response 500 ''boom'')
       = Inl (Error ''[VMClient] Server responded with status 500: boom'')"
proof -
  have n: "number_toString 500 = ''500''"
    by (simp add: number_toString_small nat_toString.simps digit_def)
  show ?thesis
    using send_contract [of "\<lparr>url = ''http://vm'', auth = Some ''tok'', batchSize = 2, flushInterval = 5000\<rparr>"
        "[''a v=1'', ''b v=2'']" "''Bearer tok''" 500 "''boom''"] n
    by simp
qed


section \<open>The example of the specification\<close>

text \<open>
  C8. The point with measurement \<open>logs\<close>, tag \<open>app=main\<close>, the string field \<open>level\<close>, the
  boolean field \<open>active\<close> and the numeric field \<open>count\<close>, without a timestamp, is encoded
  as the line \<^verbatim>\<open>logs,app=main level="info",active=t,count=2\<close>: the string is quoted,
  the boolean is the one-letter token, the number its decimal literal, and nothing
  follows the fields.
\<close>

theorem formatLineProtocol_logs_example:
  \<open>formatLineProtocol
     \<lparr>measurement = ''logs'', tags = [(''app'', ''main'')],
      fields_rec = [(''level'', FString ''info''), (''active'', FBoolean True),
                (''count'', FNumber 2)],
      timestamp = None\<rparr>
   = Inr ''logs,app=main level="info",active=t,count=2''\<close>
  by (simp add: encoder_defs number_toString_small nat_toString.simps digit_def)


section \<open>The timestamp\<close>

text \<open>
  C9, as amended. For every point with fields and a timestamp that is a valid date at an
  instant \<open>ms\<close> of magnitude below \<open>10\<^sup>1\<^sup>5\<close> milliseconds the encoded line ends, after
  the fields and a space, with the string of the product of \<open>ms\<close> and one million, and
  that string is the decimal literal of \<open>ms * 1000000\<close>: digits, after a minus sign for
  an instant before the epoch, that denote that integer. The instant 1700000000000 is
  rendered as 1700000000000000000. Without a timestamp the last part of the line is empty
  and the line ends with the fields.
\<close>

theorem formatLineProtocol_timestamp:
  "(fields_rec p \<noteq> [] \<longrightarrow> timestamp p = Some (Instant ms) \<longrightarrow> \<bar>ms\<bar> < 10 ^ 15 \<longrightarrow>
      formatLineProtocol p =
        Inr (dropWhile isWhiteSpace (measurementAndTags p @ '' '' @ fields_line p)
             @ '' '' @ number_toString (ms * 1000000)))
   \<and> (\<bar>ms\<bar> < 10 ^ 15 \<longrightarrow>
        decimal_int (number_toString (ms * 1000000)) = ms * 1000000
        \<and> set (number_toString (ms * 1000000)) \<subseteq> set ''-0123456789'')
   \<and> number_toString (1700000000000 * 1000000) = ''1700000000000000000''
   \<and> (fields_rec p \<noteq> [] \<longrightarrow> timestamp p = None \<longrightarrow>
        timestamp_line p = [] \<and>
        formatLineProtocol p =
          Inr (dropWhile isWhiteSpace (measurementAndTags p @ '' '' @ fields_line p)))"
proof (intro conjI impI)
  show "number_toString (1700000000000 * 1000000) = ''1700000000000000000''"
    using number_toString_product [of 1700000000000] by (simp add: nat_toString_example)
  show "timestamp_line p = []" if "timestamp p = None"
    using that by (simp add: timestamp_line_def)
  show "formatLineProtocol p =
          Inr (dropWhile isWhiteSpace (measurementAndTags p @ '' '' @ fields_line p))"
    if "fields_rec p \<noteq> []" and "timestamp p = None"
    using that by (rule formatLineProtocol_without_timestamp)
  show "formatLineProtocol p =
        Inr (dropWhile isWhiteSpace (measurementAndTags p @ '' '' @ fields_line p)
             @ '' '' @ number_toString (ms * 1000000))"
    if "fields_rec p \<noteq> []" and "timestamp p = Some (Instant ms)" and "\<bar>ms\<bar> < 10 ^ 15"
    using formatLineProtocol_with_timestamp [OF that(1) that(2)]
      timestamp_line_instant [OF that(2) that(3)] by simp
  show "decimal_int (number_toString (ms * 1000000)) = ms * 1000000" if "\<bar>ms\<bar> < 10 ^ 15"
  proof -
    have "decimal_int (number_toString (ms * 1000000))
        = (if ms < 0 then - int (nat \<bar>ms\<bar> * 1000000) else int (nat \<bar>ms\<bar> * 1000000))"
      unfolding number_toString_product [OF that] by (rule decimal_int_signed)
    then show ?thesis by simp
  qed
  show "set (number_toString (ms * 1000000)) \<subseteq> set ''-0123456789''" if "\<bar>ms\<bar> < 10 ^ 15"
    unfolding number_toString_product [OF that] by (rule digits_signed)
qed

theorem formatLineProtocol_timestamp_witness:
  "fields_rec \<lparr>measurement = ''m'', tags = [], fields_rec = [(''v'', FNumber 1)],
       timestamp = Some (Instant 1700000000000)\<rparr> \<noteq> []
   \<and> \<bar>1700000000000 :: int\<bar> < 10 ^ 15
   \<and> formatLineProtocol \<lparr>measurement = ''m'', tags = [], fields_rec = [(''v'', FNumber 1)],
       timestamp = Some (Instant 1700000000000)\<rparr> = Inr ''m v=1 1700000000000000000''
   \<and> decimal_int ''1700000000000000000'' = 1700000000000000000
   \<and> formatLineProtocol \<lparr>measurement = ''m'', tags = [], fields_rec = [(''v'', FNumber 1)],
       timestamp = None\<rparr> = Inr ''m v=1''"
proof -
  let ?p = "\<lparr>measurement = ''m'', tags = [], fields_rec = [(''v'', FNumber 1)],
       timestamp = Some (Instant 1700000000000)\<rparr>"
  let ?q = "\<lparr>measurement = ''m'', tags = [], fields_rec = [(''v'', FNumber 1)],
       timestamp = None :: date option\<rparr>"
  have front: "dropWhile isWhiteSpace (measurementAndTags ?p @ '' '' @ fields_line ?p) = ''m v=1''"
    "dropWhile isWhiteSpace (measurementAndTags ?q @ '' '' @ fields_line ?q) = ''m v=1''"
    by (simp_all add: encoder_defs number_toString_small nat_toString.simps digit_def)
  have b: "\<bar>1700000000000 :: int\<bar> < 10 ^ 15" by simp
  note th = formatLineProtocol_timestamp [of ?p 1700000000000]
    and tq = formatLineProtocol_timestamp [of ?q 0]
  from th have n: "number_toString (1700000000000 * 1000000) = ''1700000000000000000''"
    by blast
  from th b have "formatLineProtocol ?p =
        Inr (dropWhile isWhiteSpace (measurementAndTags ?p @ '' '' @ fields_line ?p)
             @ '' '' @ number_toString (1700000000000 * 1000000))"
    by simp
  then have l: "formatLineProtocol ?p = Inr ''m v=1 1700000000000000000''"
    unfolding front n by simp
  from th b have "decimal_int (number_toString (1700000000000 * 1000000)) = 1700000000000 * 1000000"
    by blast
  then have d: "decimal_int ''1700000000000000000'' = 1700000000000000000"
    unfolding n by simp
  from tq have "formatLineProtocol ?q =
          Inr (dropWhile isWhiteSpace (measurementAndTags ?q @ '' '' @ fields_line ?q))"
    by simp
  then have a: "formatLineProtocol ?q = Inr ''m v=1''" unfolding front by simp
  show ?thesis using b l d a by simp
qed

text \<open>
  As the claim was stated, for every timestamp that is present, it fails twice. A date
  that is present but invalid is rendered as \<open>NaN\<close>. A valid date at the instant
  \<open>10\<^sup>1\<^sup>5\<close> milliseconds is rendered in exponent form, as \<open>1e+21\<close>, not as the decimal
  literal of the product.
\<close>

theorem timestamp_not_decimal_counterexample:
  "formatLineProtocol \<lparr>measurement = ''m'', tags = [], fields_rec = [(''v'', FNumber 1)],
       timestamp = Some Invalid_Date\<rparr> = Inr ''m v=1 NaN''
   \<and> formatLineProtocol \<lparr>measurement = ''m'', tags = [], fields_rec = [(''v'', FNumber 1)],
       timestamp = Some (Instant 1000000000000000)\<rparr> = Inr ''m v=1 1e+21''
   \<and> nat_toString (1000000000000000 * 1000000) = ''1000000000000000000000''"
proof -
  have sh: "shortest (round_double (1 * 10 ^ 21)) = 1 * 10 ^ 21"
    by (rule shortest_round_double) simp_all
  have rd: "round_double (10 ^ 21) = 10 ^ 21" by (rule round_double_power10) simp
  have s: "strip_zeros 1000000000000000000000 = 1" by (simp add: strip_zeros.simps)
  have n: "ndigits 1000000000000000000000 = 22" by (simp add: ndigits.simps)
  have e: "exponent_form 1000000000000000000000 = ''1e+21''"
    unfolding exponent_form_def s n by (simp add: nat_toString.simps digit_def)
  have big: "number_toString (1000000000000000 * 1000000) = ''1e+21''"
    using sh rd e by (simp add: number_toString_def Let_def)
  have one: "number_toString 1 = ''1''"
    by (simp add: number_toString_small nat_toString.simps digit_def)
  show ?thesis
    using big one
    by (simp add: encoder_defs getTime_def nat_toString.simps digit_def)
qed


section \<open>Field keys\<close>

text \<open>
  C10. In the fields part of the encoded line every field key is escaped by the rule of
  the tags: each comma, equals sign and space of the key is preceded by a backslash, so
  every such character of the escaped key has a backslash right before it.
\<close>

theorem field_keys_escaped:
  "fields_line p =
     join '','' (map (\<lambda>(k, v). backslash_escaped {CHR '','', CHR ''='', CHR '' ''} k
                               @ ''='' @ field_value_text v) (fields_rec p))
   \<and> (fields_rec p \<noteq> [] \<longrightarrow>
        formatLineProtocol p =
          Inr (trim (measurementAndTags p @ '' '' @ fields_line p @ '' '' @ timestamp_line p)))
   \<and> (\<forall>i < length (backslash_escaped {CHR '','', CHR ''='', CHR '' ''} k).
        backslash_escaped {CHR '','', CHR ''='', CHR '' ''} k ! i \<in> {CHR '','', CHR ''='', CHR '' ''}
        \<longrightarrow> 0 < i \<and> backslash_escaped {CHR '','', CHR ''='', CHR '' ''} k ! (i - 1) = backslash)"
proof (intro conjI impI allI)
  show "fields_line p =
     join '','' (map (\<lambda>(k, v). backslash_escaped {CHR '','', CHR ''='', CHR '' ''} k
                               @ ''='' @ field_value_text v) (fields_rec p))"
    by (rule fields_line_text)
  show "formatLineProtocol p =
          Inr (trim (measurementAndTags p @ '' '' @ fields_line p @ '' '' @ timestamp_line p))"
    if "fields_rec p \<noteq> []"
    using that by (rule formatLineProtocol_Inr)
  have bs: "backslash \<notin> {CHR '','', CHR ''='', CHR '' ''}"
    by (simp add: backslash_def)
  show "0 < i" "backslash_escaped {CHR '','', CHR ''='', CHR '' ''} k ! (i - 1) = backslash"
    if "i < length (backslash_escaped {CHR '','', CHR ''='', CHR '' ''} k)"
      and "backslash_escaped {CHR '','', CHR ''='', CHR '' ''} k ! i \<in> {CHR '','', CHR ''='', CHR '' ''}"
    for i
    using backslash_escaped_preceded [OF bs that] by simp_all
qed

theorem field_keys_escaped_witness:
  "fields_rec \<lparr>measurement = ''m'', tags = [],
       fields_rec = [(''a b'', FBoolean False), (''c=d,e'', FNumber 3)], timestamp = None\<rparr> \<noteq> []
   \<and> fields_line \<lparr>measurement = ''m'', tags = [],
       fields_rec = [(''a b'', FBoolean False), (''c=d,e'', FNumber 3)], timestamp = None\<rparr>
     = ''a'' @ [backslash] @ '' b=f,c'' @ [backslash] @ ''=d'' @ [backslash] @ '',e=3''
   \<and> formatLineProtocol \<lparr>measurement = ''m'', tags = [],
       fields_rec = [(''a b'', FBoolean False), (''c=d,e'', FNumber 3)], timestamp = None\<rparr>
     = Inr (''m a'' @ [backslash] @ '' b=f,c'' @ [backslash] @ ''=d'' @ [backslash] @ '',e=3'')
   \<and> 2 < length (backslash_escaped {CHR '','', CHR ''='', CHR '' ''} ''a b'')
   \<and> backslash_escaped {CHR '','', CHR ''='', CHR '' ''} ''a b'' ! 2 = CHR '' ''
   \<and> backslash_escaped {CHR '','', CHR ''='', CHR '' ''} ''a b'' ! (2 - 1) = backslash"
proof -
  let ?p = "\<lparr>measurement = ''m'', tags = [],
       fields_rec = [(''a b'', FBoolean False), (''c=d,e'', FNumber 3)], timestamp = None\<rparr>"
  have e: "join '','' (map (\<lambda>(k, v). backslash_escaped {CHR '','', CHR ''='', CHR '' ''} k
                               @ ''='' @ field_value_text v) (fields_rec ?p))
     = ''a'' @ [backslash] @ '' b=f,c'' @ [backslash] @ ''=d'' @ [backslash] @ '',e=3''"
    by (simp add: encoder_defs number_toString_small nat_toString.simps digit_def)
  have t: "trim (measurementAndTags ?p @ '' ''
       @ (''a'' @ [backslash] @ '' b=f,c'' @ [backslash] @ ''=d'' @ [backslash] @ '',e=3'')
       @ '' '' @ timestamp_line ?p)
     = ''m a'' @ [backslash] @ '' b=f,c'' @ [backslash] @ ''=d'' @ [backslash] @ '',e=3''"
    by (simp add: encoder_defs number_toString_small nat_toString.simps digit_def)
  have k: "2 < length (backslash_escaped {CHR '','', CHR ''='', CHR '' ''} ''a b'')"
    "backslash_escaped {CHR '','', CHR ''='', CHR '' ''} ''a b'' ! 2 = CHR '' ''"
    by simp_all
  have ne: "fields_rec ?p \<noteq> []" by simp
  note th = field_keys_escaped [of ?p "''a b''"]
  from th have l: "fields_line ?p = ''a'' @ [backslash] @ '' b=f,c'' @ [backslash] @ ''=d'' @ [backslash] @ '',e=3''"
    using e by simp
  from th ne have f: "formatLineProtocol ?p =
          Inr (trim (measurementAndTags ?p @ '' '' @ fields_line ?p @ '' '' @ timestamp_line ?p))"
    by blast
  from th k have b: "backslash_escaped {CHR '','', CHR ''='', CHR '' ''} ''a b'' ! (2 - 1) = backslash"
    by simp
  show ?thesis using ne l f t k b by simp
qed

end
